theory Spec2Isabelle
  imports Complex_Main "HOL-Library.Sublist"
begin

unbundle bit_operations_syntax

section \<open>Python values used by the pipeline\<close>

text \<open>
  A Python \<open>str\<close> is a sequence of Unicode code points, and \<open>len\<close> counts code points.
  A string is therefore a list of code points (natural numbers); \<open>asc\<close> turns an ASCII
  literal into such a list, so that \<open>asc ''Abstract''\<close> reads like the source. The Chinese
  keys of the keyword table and of the references pattern are written as their code points.
\<close>

type_synonym ustring = "nat list"

definition asc :: "string \<Rightarrow> ustring" where
  "asc = map of_char"

text \<open>
  \<open>str.isspace\<close> of one character (the same set is what \<open>\s\<close> matches in a \<open>str\<close>
  pattern): the 29 white-space code points of the Unicode database of CPython 3.
\<close>

definition isspace :: "nat \<Rightarrow> bool" where
  "isspace c \<longleftrightarrow> (9 \<le> c \<and> c \<le> 13) \<or> (28 \<le> c \<and> c \<le> 32) \<or> c = 133 \<or> c = 160
     \<or> c = 5760 \<or> (8192 \<le> c \<and> c \<le> 8202) \<or> c = 8232 \<or> c = 8233 \<or> c = 8239
     \<or> c = 8287 \<or> c = 12288"

text \<open>\<open>s.strip()\<close>: white space removed at both ends.\<close>

definition strip :: "ustring \<Rightarrow> ustring" where
  "strip s = rev (dropWhile isspace (rev (dropWhile isspace s)))"

text \<open>
  \<open>s.split()\<close> without arguments: the maximal runs of characters that are not white space,
  in order; never an empty token. \<open>tok\<close> is the token being read.
\<close>

fun split_acc :: "ustring \<Rightarrow> ustring \<Rightarrow> ustring list" where
  "split_acc tok [] = (if tok = [] then [] else [tok])"
| "split_acc tok (c # cs) =
     (if isspace c then (if tok = [] then split_acc [] cs else tok # split_acc [] cs)
      else split_acc (tok @ [c]) cs)"

definition pysplit :: "ustring \<Rightarrow> ustring list" where
  "pysplit s = split_acc [] s"

text \<open>\<open>sep.join(xs)\<close>.\<close>

fun join :: "ustring \<Rightarrow> ustring list \<Rightarrow> ustring" where
  "join sep [] = []"
| "join sep [x] = x"
| "join sep (x # y # ys) = x @ sep @ join sep (y # ys)"

text \<open>
  \<open>s.count(sub)\<close>: the number of non-overlapping occurrences of \<open>sub\<close> in \<open>s\<close>, found
  from the left; after a match the scan resumes behind it (\<open>k\<close> is the number of characters
  of the last match still to be passed over). For the empty \<open>sub\<close> Python returns
  \<open>len(s) + 1\<close>.
\<close>

fun count_from :: "ustring \<Rightarrow> nat \<Rightarrow> ustring \<Rightarrow> nat" where
  "count_from sub k [] = 0"
| "count_from sub k (c # cs) =
     (if k = 0 \<and> prefix sub (c # cs) then 1 + count_from sub (length sub - 1) cs
      else count_from sub (k - 1) cs)"

definition pycount :: "ustring \<Rightarrow> ustring \<Rightarrow> nat" where
  "pycount s sub = (if sub = [] then length s + 1 else count_from sub 0 s)"

text \<open>\<open>sub in s\<close> for strings: \<open>sub\<close> occurs in \<open>s\<close> as a contiguous block.\<close>

fun contains :: "ustring \<Rightarrow> ustring \<Rightarrow> bool" where
  "contains sub [] = (sub = [])"
| "contains sub (c # cs) = (prefix sub (c # cs) \<or> contains sub cs)"

text \<open>
  \<open>xs[:k]\<close> for an integer \<open>k\<close>: the first \<open>k\<close> elements, and for a negative \<open>k\<close> all but
  the last \<open>-k\<close>.
\<close>

definition slice_to :: "int \<Rightarrow> 'a list \<Rightarrow> 'a list" where
  "slice_to k xs = (if 0 \<le> k then take (nat k) xs else take (length xs - nat (- k)) xs)"

text \<open>
  The values stored in a chunk dictionary (a JSON object once persisted): integers, strings,
  and \<open>POther\<close> for every value that is neither (null, floats, lists, objects). A dictionary
  is a finite map from string keys to values; \<open>d.update(e)\<close> is \<open>d ++ e\<close>.
\<close>

datatype pyval = PInt int | PStr ustring | POther

type_synonym pydict = "ustring \<rightharpoonup> pyval"

text \<open>The one exception the modelled code can raise: \<open>.lower()\<close> on a value that is not a string.\<close>

datatype error = AttributeError

text \<open>
  ASCII case mapping, used to run the definitions on ASCII inputs, where it agrees with
  \<open>str.lower\<close>. The retrieval functions take \<open>str.lower\<close> itself as the parameter \<open>lower\<close>:
  it is a table of the Unicode database, not code of this repository.
\<close>

definition ascii_lower :: "ustring \<Rightarrow> ustring" where
  "ascii_lower = map (\<lambda>c. if 65 \<le> c \<and> c \<le> 90 then c + 32 else c)"


section \<open>Retriever (src/rag/retriever.py)\<close>

text \<open>
  \<open>keywords_map\<close> of \<open>_translate_query\<close>, in insertion order; the keys are the code points
  of the eight Chinese terms.
\<close>

definition keywords_map :: "(ustring \<times> ustring) list" where
  "keywords_map =
    [([38728, 33437], asc ''Ganoderma lucidum''),
     ([20813, 30123], asc ''immune immunomodulatory''),
     ([30284, 30151], asc ''cancer tumor''),
     ([21151, 25928], asc ''effect benefit''),
     ([33256, 24202], asc ''clinical''),
     ([35430, 39511], asc ''trial''),
     ([22810, 37283, 39636], asc ''polysaccharide''),
     ([19977, 33820], asc ''triterpenoid'')]"

definition translate_query :: "ustring \<Rightarrow> ustring" where
  "translate_query query =
    (let translated_parts = map snd (filter (\<lambda>(key, value). contains key query) keywords_map)
     in if translated_parts \<noteq> [] then join (asc '' '') translated_parts @ asc '' '' @ query
        else query)"

text \<open>
  \<open>chunk.get('content', '').lower()\<close>: the empty string when the key is absent, and an
  \<open>AttributeError\<close> when the value is not a string.
\<close>

definition content_lower :: "(ustring \<Rightarrow> ustring) \<Rightarrow> pydict \<Rightarrow> error + ustring" where
  "content_lower lower chunk =
    (case chunk (asc ''content'') of
       None \<Rightarrow> Inr (lower [])
     | Some (PStr s) \<Rightarrow> Inr (lower s)
     | Some _ \<Rightarrow> Inl AttributeError)"

text \<open>
  The inner loop over \<open>query_terms\<close>: terms shorter than 3 characters are skipped, every
  other term adds \<open>content.count(term)\<close>.
\<close>

definition term_score :: "ustring list \<Rightarrow> ustring \<Rightarrow> int" where
  "term_score query_terms content =
    fold (\<lambda>term score. if length term < 3 then score else score + int (pycount content term))
      query_terms 0"

text \<open>
  The loop over \<open>self.chunks\<close>: a chunk with a positive score is appended as
  \<open>{**chunk, 'score': score}\<close>; the first chunk whose content is not a string raises.
\<close>

fun score_chunks :: "(ustring \<Rightarrow> ustring) \<Rightarrow> ustring list \<Rightarrow> pydict list \<Rightarrow> error + pydict list" where
  "score_chunks lower query_terms [] = Inr []"
| "score_chunks lower query_terms (chunk # chunks) =
    (case content_lower lower chunk of
       Inl e \<Rightarrow> Inl e
     | Inr content \<Rightarrow>
        (let score = term_score query_terms content in
         case score_chunks lower query_terms chunks of
           Inl e \<Rightarrow> Inl e
         | Inr scored \<Rightarrow>
             Inr (if score > 0 then chunk(asc ''score'' \<mapsto> PInt score) # scored else scored)))"

text \<open>
  The sort key \<open>x['score']\<close>. Every element of \<open>scored_chunks\<close> holds an integer there; the
  default is never reached.
\<close>

definition score_key :: "pydict \<Rightarrow> int" where
  "score_key x = (case x (asc ''score'') of Some (PInt n) \<Rightarrow> n | _ \<Rightarrow> 0)"

text \<open>
  \<open>xs.sort(key=key, reverse=True)\<close>: Python's sort is stable, also with \<open>reverse=True\<close>
  (elements with equal keys keep their order), so it is the stable sort by the negated key.
\<close>

definition sort_reverse :: "('a \<Rightarrow> int) \<Rightarrow> 'a list \<Rightarrow> 'a list" where
  "sort_reverse key xs = sort_key (\<lambda>x. - key x) xs"

text \<open>
  \<open>query_terms = set(query_lower.split())\<close>: the distinct tokens. The order in which Python
  iterates over the set does not matter, the loop only adds.
\<close>

definition keyword_retrieval ::
    "(ustring \<Rightarrow> ustring) \<Rightarrow> pydict list \<Rightarrow> ustring \<Rightarrow> int \<Rightarrow> error + pydict list" where
  "keyword_retrieval lower chunks query top_k =
    (let query_lower = lower query;
         query_terms = remdups (pysplit query_lower)
     in case score_chunks lower query_terms chunks of
          Inl e \<Rightarrow> Inl e
        | Inr scored_chunks \<Rightarrow> Inr (slice_to top_k (sort_reverse score_key scored_chunks)))"

definition vector_retrieval ::
    "(ustring \<Rightarrow> ustring) \<Rightarrow> pydict list \<Rightarrow> ustring \<Rightarrow> int \<Rightarrow> error + pydict list" where
  "vector_retrieval lower chunks query top_k = keyword_retrieval lower chunks query top_k"

text \<open>\<open>retrieve\<close>; \<open>chunks\<close> is \<open>self.chunks\<close>, empty until \<open>load_chunks\<close> has run.\<close>

definition retrieve ::
    "(ustring \<Rightarrow> ustring) \<Rightarrow> pydict list \<Rightarrow> ustring \<Rightarrow> int \<Rightarrow> ustring \<Rightarrow> error + pydict list" where
  "retrieve lower chunks query top_k method =
    (if chunks = [] then Inr []
     else let search_query = translate_query query in
       if method = asc ''keyword'' then keyword_retrieval lower chunks search_query top_k
       else if method = asc ''vector'' then vector_retrieval lower chunks search_query top_k
       else Inr [])"

text \<open>
  Vocabulary of the statements about retrieval. A chunk is well typed when its content, if
  present, is a string (the data model's \<open>content: string\<close>); \<open>chunk_score\<close> is the score
  the loop computes for one chunk; \<open>scored_corpus\<close> is \<open>scored_chunks\<close> before the sort: the
  chunks of positive score, in corpus order, each with its score.
\<close>

definition well_typed :: "pydict \<Rightarrow> bool" where
  "well_typed chunk =
    (case chunk (asc ''content'') of None \<Rightarrow> True | Some (PStr s) \<Rightarrow> True | Some _ \<Rightarrow> False)"

definition chunk_score :: "(ustring \<Rightarrow> ustring) \<Rightarrow> ustring list \<Rightarrow> pydict \<Rightarrow> int" where
  "chunk_score lower query_terms chunk =
    (case content_lower lower chunk of Inr content \<Rightarrow> term_score query_terms content | Inl e \<Rightarrow> 0)"

definition scored_corpus :: "(ustring \<Rightarrow> ustring) \<Rightarrow> pydict list \<Rightarrow> ustring \<Rightarrow> pydict list" where
  "scored_corpus lower chunks query =
    (let query_terms = remdups (pysplit (lower query))
     in map (\<lambda>c. c(asc ''score'' \<mapsto> PInt (chunk_score lower query_terms c)))
          (filter (\<lambda>c. chunk_score lower query_terms c > 0) chunks))"

text \<open>
  The score as the specification words it: every token of the query of length at least 3
  (with repetitions) contributes the number of positions of the content at which it occurs,
  overlapping occurrences included.
\<close>

fun spec_occurrences :: "ustring \<Rightarrow> ustring \<Rightarrow> nat" where
  "spec_occurrences sub [] = 0"
| "spec_occurrences sub (c # cs) = (if prefix sub (c # cs) then 1 else 0) + spec_occurrences sub cs"

definition spec_score :: "(ustring \<Rightarrow> ustring) \<Rightarrow> ustring \<Rightarrow> ustring \<Rightarrow> int" where
  "spec_score lower query content =
     (\<Sum>t\<leftarrow>filter (\<lambda>t. 3 \<le> length t) (pysplit (lower query)).
         int (spec_occurrences t (lower content)))"

text \<open>A small corpus on which the statements are run.\<close>

definition example_corpus :: "pydict list" where
  "example_corpus =
    [[asc ''content'' \<mapsto> PStr (asc ''Ganoderma is a fungus'')],
     [asc ''content'' \<mapsto> PStr (asc ''Ganoderma boosts immune cells. Ganoderma!'')],
     [asc ''content'' \<mapsto> PStr (asc ''Unrelated text'')],
     [asc ''section'' \<mapsto> PStr (asc ''Methods'')]]"


section \<open>Chunker (src/processors/text_chunker.py)\<close>

record chunker =
  chunk_size :: int
  chunk_overlap :: int
  min_chunk_size :: int

text \<open>
  \<open>TextChunker.__init__\<close> stores its three arguments; it has no check and no \<open>raise\<close>, so
  the result is always the constructed object.
\<close>

definition TextChunker_init :: "int \<Rightarrow> int \<Rightarrow> int \<Rightarrow> error + chunker" where
  "TextChunker_init cs ov mn = Inr \<lparr>chunk_size = cs, chunk_overlap = ov, min_chunk_size = mn\<rparr>"


text \<open>
  \<open>re.split(r'(?<=[.!?])\s+(?=[A-Z])', text)\<close>, scanning from the left; \<open>cur\<close> is the piece
  read so far. A separator starts at a white-space character that follows \<open>.\<close>, \<open>!\<close> or
  \<open>?\<close>, takes the whole run of white space, and needs an ASCII capital right after the
  run; the run is dropped. White space met anywhere else stays in the piece.
\<close>

definition is_sentence_end :: "nat \<Rightarrow> bool" where
  "is_sentence_end c \<longleftrightarrow> c = 46 \<or> c = 33 \<or> c = 63"

definition is_ascii_upper :: "nat \<Rightarrow> bool" where
  "is_ascii_upper c \<longleftrightarrow> 65 \<le> c \<and> c \<le> 90"

function split_boundaries :: "ustring \<Rightarrow> ustring \<Rightarrow> ustring list" where
  "split_boundaries cur [] = [cur]"
| "split_boundaries cur (c # cs) =
     (let after = dropWhile isspace cs in
      if isspace c \<and> cur \<noteq> [] \<and> is_sentence_end (last cur)
         \<and> after \<noteq> [] \<and> is_ascii_upper (hd after)
      then cur # split_boundaries [] after
      else split_boundaries (cur @ [c]) cs)"
  by pat_completeness auto
termination
  by (relation "measure (\<lambda>(cur, rest). length rest)")
     (auto simp: length_dropWhile_le less_Suc_eq_le)

text \<open>\<open>_split_sentences\<close>: the pieces, stripped, without the empty ones.\<close>

definition split_sentences :: "ustring \<Rightarrow> ustring list" where
  "split_sentences text = filter (\<lambda>s. s \<noteq> []) (map strip (split_boundaries [] text))"

text \<open>
  The inner loop of \<open>_create_chunks\<close>, \<open>for s in reversed(current_chunk)\<close>: sentences are
  taken from the end while they fit into \<open>chunk_overlap\<close>; the first one that does not fit
  ends the loop. The result is \<open>(overlap_sentences, overlap_size)\<close>.
\<close>

fun overlap_loop :: "int \<Rightarrow> ustring list \<Rightarrow> ustring list \<Rightarrow> int \<Rightarrow> ustring list \<times> int" where
  "overlap_loop ov [] overlap_sentences overlap_size = (overlap_sentences, overlap_size)"
| "overlap_loop ov (s # rest) overlap_sentences overlap_size =
     (if overlap_size + int (length s) \<le> ov
      then overlap_loop ov rest (s # overlap_sentences) (overlap_size + int (length s))
      else (overlap_sentences, overlap_size))"

text \<open>
  One round of the loop over the sentences; the state is
  \<open>(chunks, current_chunk, current_size)\<close>.
\<close>

definition chunk_step ::
    "chunker \<Rightarrow> ustring \<Rightarrow> ustring list \<times> ustring list \<times> int \<Rightarrow> ustring list \<times> ustring list \<times> int" where
  "chunk_step cfg sentence st =
    (case st of (chunks, current_chunk, current_size) \<Rightarrow>
       let sentence_size = int (length sentence) in
       if current_size + sentence_size > chunk_size cfg \<and> current_chunk \<noteq> [] then
         let chunk_text = join (asc '' '') current_chunk;
             chunks' = (if int (length chunk_text) \<ge> min_chunk_size cfg
                        then chunks @ [chunk_text] else chunks);
             (overlap_sentences, overlap_size) =
                overlap_loop (chunk_overlap cfg) (rev current_chunk) [] 0
         in (chunks', overlap_sentences @ [sentence], overlap_size + sentence_size)
       else (chunks, current_chunk @ [sentence], current_size + sentence_size))"

definition create_chunks :: "chunker \<Rightarrow> ustring list \<Rightarrow> ustring list" where
  "create_chunks cfg sentences =
    (case fold (chunk_step cfg) sentences ([], [], 0) of (chunks, current_chunk, current_size) \<Rightarrow>
       if current_chunk \<noteq> [] then
         let chunk_text = join (asc '' '') current_chunk in
         if int (length chunk_text) \<ge> min_chunk_size cfg then chunks @ [chunk_text] else chunks
       else chunks)"

text \<open>
  The dictionary built for chunk \<open>i\<close> of \<open>n\<close>, then \<open>if metadata: chunk_dict.update(metadata)\<close>
  (\<open>None\<close> and the empty dictionary both leave it unchanged).
\<close>

definition chunk_dict :: "nat \<Rightarrow> nat \<Rightarrow> ustring \<Rightarrow> pydict" where
  "chunk_dict i n chunk_text =
    [asc ''chunk_index'' \<mapsto> PInt (int i),
     asc ''total_chunks'' \<mapsto> PInt (int n),
     asc ''content'' \<mapsto> PStr chunk_text,
     asc ''char_count'' \<mapsto> PInt (int (length chunk_text)),
     asc ''word_count'' \<mapsto> PInt (int (length (pysplit chunk_text)))]"

definition update_with :: "pydict option \<Rightarrow> pydict \<Rightarrow> pydict" where
  "update_with metadata d = (case metadata of None \<Rightarrow> d | Some m \<Rightarrow> d ++ m)"

definition chunk_text :: "chunker \<Rightarrow> ustring \<Rightarrow> pydict option \<Rightarrow> pydict list" where
  "chunk_text cfg text metadata =
    (if text = [] \<or> strip text = [] then []
     else
       let sentences = split_sentences text;
           chunks = create_chunks cfg sentences
       in map (\<lambda>(i, chunk_text). update_with metadata (chunk_dict i (length chunks) chunk_text))
            (enumerate 0 chunks))"

text \<open>
  A section of the parser: \<open>section.get('title', '')\<close>, \<open>section.get('content', [])\<close> and
  \<open>section.get('page', 0)\<close> read the fields \<open>sec_title\<close>, \<open>sec_content\<close> and \<open>sec_page\<close> (an absent key is its default).
\<close>

record pdf_section =
  sec_title :: ustring
  sec_page :: int
  sec_content :: "ustring list"

text \<open>
  \<open>chunk_by_sections\<close>: each section is chunked without metadata, its chunks get \<open>section\<close>
  and \<open>page\<close> and then the metadata; after the loop every chunk of the concatenation is
  renumbered.
\<close>

definition section_chunks :: "chunker \<Rightarrow> pydict option \<Rightarrow> pdf_section \<Rightarrow> pydict list" where
  "section_chunks cfg metadata sec =
    (let section_title = sec_title sec;
         section_content = join (asc '' '') (sec_content sec);
         section_page = sec_page sec;
         section_text = section_title @ [10, 10] @ section_content;
         chunks = chunk_text cfg section_text None
     in map (\<lambda>chunk. update_with metadata
               (chunk(asc ''section'' \<mapsto> PStr section_title, asc ''page'' \<mapsto> PInt section_page)))
          chunks)"

definition chunk_by_sections :: "chunker \<Rightarrow> pdf_section list \<Rightarrow> pydict option \<Rightarrow> pydict list" where
  "chunk_by_sections cfg sections metadata =
    (let all_chunks = concat (map (section_chunks cfg metadata) sections);
         total = length all_chunks
     in map (\<lambda>(i, chunk). chunk(asc ''chunk_index'' \<mapsto> PInt (int i),
                                  asc ''total_chunks'' \<mapsto> PInt (int total)))
          (enumerate 0 all_chunks))"

text \<open>The default configuration \<open>TextChunker()\<close>.\<close>

definition default_chunker :: chunker where
  "default_chunker = \<lparr>chunk_size = 1000, chunk_overlap = 200, min_chunk_size = 100\<rparr>"


text \<open>
  Vocabulary of the statements about chunking: the caller's metadata as a dictionary (empty
  for \<open>None\<close>), and index density of a chunk sequence of length \<open>N\<close>: the \<open>chunk_index\<close>
  values are \<open>0..N-1\<close> in order and every \<open>total_chunks\<close> is \<open>N\<close>.
\<close>

definition metadata_of :: "pydict option \<Rightarrow> pydict" where
  "metadata_of metadata = (case metadata of None \<Rightarrow> Map.empty | Some m \<Rightarrow> m)"

definition dense_indices :: "pydict list \<Rightarrow> bool" where
  "dense_indices out \<longleftrightarrow>
     map (\<lambda>d. d (asc ''chunk_index'')) out = map (\<lambda>i. Some (PInt (int i))) [0..<length out]
   \<and> map (\<lambda>d. d (asc ''total_chunks'')) out = replicate (length out) (Some (PInt (int (length out))))"

text \<open>A configuration and a text of three sentences on which the statements are run.\<close>

definition example_chunker :: chunker where
  "example_chunker = \<lparr>chunk_size = 40, chunk_overlap = 20, min_chunk_size = 30\<rparr>"

definition example_text :: ustring where
  "example_text = asc ''Reishi is a fungus. It grows on wood. People brew it as tea.''"


text \<open>
  Vocabulary of the statements about overlap. \<open>total_length\<close> is the combined character
  length of a list of sentences, \<open>carried cfg buf\<close> the sentences the inner loop carries from
  the closed buffer \<open>buf\<close> into the next one, and \<open>keep\<close> the minimum-size test.
\<close>

definition total_length :: "ustring list \<Rightarrow> int" where
  "total_length ss = (\<Sum>s\<leftarrow>ss. int (length s))"

definition carried :: "chunker \<Rightarrow> ustring list \<Rightarrow> ustring list" where
  "carried cfg buf = fst (overlap_loop (chunk_overlap cfg) (rev buf) [] 0)"

definition keep :: "chunker \<Rightarrow> ustring \<Rightarrow> bool" where
  "keep cfg t \<longleftrightarrow> min_chunk_size cfg \<le> int (length t)"

text \<open>
  The buffers of one run, by position: \<open>segment ss (a, b)\<close> is the block of sentences
  \<open>ss[a:b]\<close>, and \<open>buffer_spans cfg ss\<close> lists, for the sentence list \<open>ss\<close>, the spans
  \<open>(start, end)\<close> of all buffers the loop closes, the final one included. It is the loop of
  \<open>_create_chunks\<close> run on positions instead of strings; that the chunks are exactly the
  joined texts of these spans that pass the minimum-size test is proved below.
\<close>

definition segment :: "'a list \<Rightarrow> nat \<times> nat \<Rightarrow> 'a list" where
  "segment xs sp = drop (fst sp) (take (snd sp) xs)"

definition span_step ::
    "chunker \<Rightarrow> ustring list \<Rightarrow> nat \<Rightarrow> (nat \<times> nat) list \<times> nat \<times> int \<Rightarrow> (nat \<times> nat) list \<times> nat \<times> int" where
  "span_step cfg ss n st =
    (case st of (spans, start, current_size) \<Rightarrow>
       let sentence_size = int (length (ss ! n)) in
       if current_size + sentence_size > chunk_size cfg \<and> start < n then
         let kept = carried cfg (segment ss (start, n))
         in (spans @ [(start, n)], n - length kept, total_length kept + sentence_size)
       else (spans, start, current_size + sentence_size))"

definition buffer_spans :: "chunker \<Rightarrow> ustring list \<Rightarrow> (nat \<times> nat) list" where
  "buffer_spans cfg ss =
    (case fold (span_step cfg ss) [0..<length ss] ([], 0, 0) of (spans, start, current_size) \<Rightarrow>
       if start < length ss then spans @ [(start, length ss)] else spans)"

text \<open>The number of sentences the inner loop takes from the reversed buffer \<open>xs\<close>.\<close>

fun take_count :: "int \<Rightarrow> ustring list \<Rightarrow> int \<Rightarrow> nat" where
  "take_count ov [] sz = 0"
| "take_count ov (s # rest) sz =
     (if sz + int (length s) \<le> ov then Suc (take_count ov rest (sz + int (length s))) else 0)"

text \<open>
  \<open>follows\<close>: the buffer at span \<open>q\<close> starts with exactly the sentences carried out of the
  buffer at span \<open>p\<close> and then goes on. \<open>overlap_within\<close>: the buffer at \<open>q\<close> starts and
  ends later than the one at \<open>p\<close>, and the sentences the two share, those at the positions
  from \<open>fst q\<close> up to \<open>snd p\<close>, have a combined length of at most \<open>chunk_overlap\<close>.
\<close>

definition follows :: "chunker \<Rightarrow> ustring list \<Rightarrow> nat \<times> nat \<Rightarrow> nat \<times> nat \<Rightarrow> bool" where
  "follows cfg ss p q \<longleftrightarrow>
     fst p \<le> fst q \<and> fst q \<le> snd p \<and> snd p < snd q
     \<and> segment ss (fst q, snd p) = carried cfg (segment ss p)"

definition overlap_within :: "chunker \<Rightarrow> ustring list \<Rightarrow> nat \<times> nat \<Rightarrow> nat \<times> nat \<Rightarrow> bool" where
  "overlap_within cfg ss p q \<longleftrightarrow>
     fst p \<le> fst q \<and> snd p < snd q
     \<and> total_length (segment ss (fst q, snd p)) \<le> chunk_overlap cfg"

definition example_sentences_list :: "ustring list" where
  "example_sentences_list =
     [asc ''Reishi is a fungus.'', asc ''It grows on wood.'', asc ''People brew it as tea.'']"


section \<open>Structure extraction (src/processors/pdf_parser.py)\<close>

subsection \<open>Regular expressions\<close>

text \<open>
  The patterns of the parser use literals, the classes \<open>\d\<close>, \<open>\s\<close> and \<open>[A-Z]\<close>,
  sequence, alternative, \<open>?\<close> and \<open>+\<close> on a class. \<open>rests ic r s\<close> lists what is left of
  \<open>s\<close> after each way in which \<open>r\<close> matches a prefix of \<open>s\<close>; \<open>ic\<close> is \<open>re.IGNORECASE\<close>.
  \<open>re.match\<close> succeeds when there is such a way, \<open>re.search\<close> when there is one at some
  position. (Which of several matches Python returns plays no role: the parser only tests
  for a match.)
\<close>

datatype atom = Lit nat | Digit | Space | AZ

datatype regex = Eps | Atom atom | Seq regex regex | Alt regex regex | Opt regex | Plus atom

text \<open>
  \<open>\d\<close> in a \<open>str\<close> pattern: the decimal digits of the Unicode database (category Nd), here
  as the ranges of Unicode 14.
\<close>

definition decimal_ranges :: "(nat \<times> nat) list" where
  "decimal_ranges =
    [(48, 57), (1632, 1641), (1776, 1785), (1984, 1993), (2406, 2415), (2534, 2543),
     (2662, 2671), (2790, 2799), (2918, 2927), (3046, 3055), (3174, 3183), (3302, 3311),
     (3430, 3439), (3558, 3567), (3664, 3673), (3792, 3801), (3872, 3881), (4160, 4169),
     (4240, 4249), (6112, 6121), (6160, 6169), (6470, 6479), (6608, 6617), (6784, 6793),
     (6800, 6809), (6992, 7001), (7088, 7097), (7232, 7241), (7248, 7257), (42528, 42537),
     (43216, 43225), (43264, 43273), (43472, 43481), (43504, 43513), (43600, 43609),
     (44016, 44025), (65296, 65305), (66720, 66729), (68912, 68921), (69734, 69743),
     (69872, 69881), (69942, 69951), (70096, 70105), (70384, 70393), (70736, 70745),
     (70864, 70873), (71248, 71257), (71360, 71369), (71472, 71481), (71904, 71913),
     (72016, 72025), (72784, 72793), (73040, 73049), (73120, 73129), (92768, 92777),
     (92864, 92873), (93008, 93017), (120782, 120831), (123200, 123209), (123632, 123641),
     (125264, 125273), (130032, 130041)]"

definition is_decimal :: "nat \<Rightarrow> bool" where
  "is_decimal c = list_ex (\<lambda>(lo, hi). lo \<le> c \<and> c \<le> hi) decimal_ranges"

text \<open>
  A literal under \<open>re.IGNORECASE\<close>, for the pattern characters that occur (ASCII letters, the
  dot, caseless CJK characters): the character itself, for an ASCII letter also its other
  case, and the three extra equivalents of \<open>i\<close>, \<open>s\<close> and \<open>k\<close> that \<open>re\<close> knows (dotted
  and dotless i, long s, the Kelvin sign).
\<close>

definition lit_matches :: "bool \<Rightarrow> nat \<Rightarrow> nat \<Rightarrow> bool" where
  "lit_matches ic p c \<longleftrightarrow>
     c = p \<or> (ic \<and> (   (65 \<le> p \<and> p \<le> 90 \<and> c = p + 32)
                     \<or> (97 \<le> p \<and> p \<le> 122 \<and> c + 32 = p)
                     \<or> ((p = 73 \<or> p = 105) \<and> (c = 304 \<or> c = 305))
                     \<or> ((p = 83 \<or> p = 115) \<and> c = 383)
                     \<or> ((p = 75 \<or> p = 107) \<and> c = 8490)))"

fun atom_matches :: "bool \<Rightarrow> atom \<Rightarrow> nat \<Rightarrow> bool" where
  "atom_matches ic (Lit p) c = lit_matches ic p c"
| "atom_matches ic Digit c = is_decimal c"
| "atom_matches ic Space c = isspace c"
| "atom_matches ic AZ c =
     ((65 \<le> c \<and> c \<le> 90) \<or> (ic \<and> ((97 \<le> c \<and> c \<le> 122) \<or> c = 304 \<or> c = 305 \<or> c = 383 \<or> c = 8490)))"

fun plus_rests :: "bool \<Rightarrow> atom \<Rightarrow> ustring \<Rightarrow> ustring list" where
  "plus_rests ic a [] = []"
| "plus_rests ic a (c # cs) = (if atom_matches ic a c then plus_rests ic a cs @ [cs] else [])"

fun rests :: "bool \<Rightarrow> regex \<Rightarrow> ustring \<Rightarrow> ustring list" where
  "rests ic Eps s = [s]"
| "rests ic (Atom a) [] = []"
| "rests ic (Atom a) (c # cs) = (if atom_matches ic a c then [cs] else [])"
| "rests ic (Seq r1 r2) s = concat (map (rests ic r2) (rests ic r1 s))"
| "rests ic (Alt r1 r2) s = rests ic r1 s @ rests ic r2 s"
| "rests ic (Opt r) s = rests ic r s @ [s]"
| "rests ic (Plus a) s = plus_rests ic a s"

definition re_match :: "bool \<Rightarrow> regex \<Rightarrow> ustring \<Rightarrow> bool" where
  "re_match ic r s \<longleftrightarrow> rests ic r s \<noteq> []"

fun re_search :: "bool \<Rightarrow> regex \<Rightarrow> ustring \<Rightarrow> bool" where
  "re_search ic r [] = re_match ic r []"
| "re_search ic r (c # cs) = (re_match ic r (c # cs) \<or> re_search ic r cs)"

text \<open>A word as a pattern, and \<open>r1|r2|...\<close>.\<close>

fun word :: "ustring \<Rightarrow> regex" where
  "word [] = Eps"
| "word [c] = Atom (Lit c)"
| "word (c # d # cs) = Seq (Atom (Lit c)) (word (d # cs))"

fun alternatives :: "regex list \<Rightarrow> regex" where
  "alternatives [] = Eps"
| "alternatives [r] = r"
| "alternatives (r # q # rs) = Alt r (alternatives (q # rs))"

subsection \<open>The parser\<close>

text \<open>
  What PyMuPDF hands over: a document is a list of pages, a page a list of blocks, a text
  block (\<open>type == 0\<close>) a list of lines, a line a list of spans; a span has its text, its font
  size (a float, only ever compared with 12) and its font flags. The records hold what the
  \<open>.get\<close> calls read (an absent key is its default).
\<close>

record pdf_span =
  span_text :: ustring
  span_size :: real
  span_flags :: int

record pdf_line =
  line_spans :: "pdf_span list"

record pdf_block =
  block_type :: int
  block_lines :: "pdf_line list"

text \<open>
  \<open>heading_patterns\<close> of \<open>_is_heading\<close>:
  \<open>^(Abstract|Introduction|Methods?|Results?|Discussion|Conclusion|References?)\<close> and
  \<open>^\d+\.?\s+[A-Z]\<close>; both are used with \<open>re.match\<close>, which anchors at the start.
\<close>

definition heading_patterns :: "regex list" where
  "heading_patterns =
    [alternatives
       [word (asc ''Abstract''), word (asc ''Introduction''),
        Seq (word (asc ''Method'')) (Opt (Atom (Lit 115))),
        Seq (word (asc ''Result'')) (Opt (Atom (Lit 115))),
        word (asc ''Discussion''), word (asc ''Conclusion''),
        Seq (word (asc ''Reference'')) (Opt (Atom (Lit 115)))],
     Seq (Plus Digit) (Seq (Opt (Atom (Lit 46))) (Seq (Plus Space) (Atom AZ)))]"

text \<open>
  \<open>_is_heading\<close>. \<open>isupper\<close> stands for \<open>str.isupper\<close>, a property of the Unicode database
  taken as a parameter; \<open>font_flags & 2 ** 4\<close> is used as a truth value.
\<close>

definition is_heading :: "(ustring \<Rightarrow> bool) \<Rightarrow> pdf_line \<Rightarrow> bool" where
  "is_heading isupper line =
    (case line_spans line of
       [] \<Rightarrow> False
     | first_span # others \<Rightarrow>
        (let font_size = span_size first_span;
             font_flags = span_flags first_span;
             is_bold = (font_flags AND 16 \<noteq> 0);
             is_large = (font_size > 12);
             text = strip (span_text first_span);
             is_short = (length text < 100);
             is_uppercase = (isupper text \<and> length text > 3);
             matches_pattern = list_ex (\<lambda>pattern. re_match True pattern text) heading_patterns
         in (is_bold \<and> is_large) \<or> (is_large \<and> is_short) \<or> is_uppercase \<or> matches_pattern))"

text \<open>\<open>References?|Bibliography|\<close> and the four characters of the Chinese word for references.\<close>

definition references_pattern :: regex where
  "references_pattern =
    alternatives
      [Seq (word (asc ''Reference'')) (Opt (Atom (Lit 115))),
       word (asc ''Bibliography''),
       word [21443, 32771, 25991, 29563]]"

text \<open>The text of a line as \<open>_extract_structure\<close> computes it: the span texts joined, stripped.\<close>

definition line_text :: "pdf_line \<Rightarrow> ustring" where
  "line_text line = strip (concat (map span_text (line_spans line)))"

text \<open>
  The loop over the lines of one block; the state is \<open>(sections, current_section)\<close>.
  \<open>continue\<close> goes on with the next line, \<open>break\<close> ends this loop and only this loop.
\<close>

fun scan_lines ::
    "(ustring \<Rightarrow> bool) \<Rightarrow> nat \<Rightarrow> pdf_line list \<Rightarrow> pdf_section list \<times> pdf_section option
       \<Rightarrow> pdf_section list \<times> pdf_section option" where
  "scan_lines isupper page_num [] st = st"
| "scan_lines isupper page_num (line # lines) (sections, current_section) =
    (let text = line_text line in
     if text = [] then scan_lines isupper page_num lines (sections, current_section)
     else if is_heading isupper line then
       (if re_search True references_pattern text then (sections, current_section)
        else scan_lines isupper page_num lines
               (case current_section of None \<Rightarrow> sections | Some c \<Rightarrow> sections @ [c],
                Some \<lparr>sec_title = text, sec_page = int page_num + 1, sec_content = []\<rparr>))
     else
       (case current_section of
          Some c \<Rightarrow> scan_lines isupper page_num lines
                      (sections, Some (c\<lparr>sec_content := sec_content c @ [text]\<rparr>))
        | None \<Rightarrow> scan_lines isupper page_num lines (sections, None)))"

text \<open>The loop over the blocks of a page, and \<open>_extract_structure\<close>: the loop over the pages.\<close>

definition scan_block ::
    "(ustring \<Rightarrow> bool) \<Rightarrow> nat \<Rightarrow> pdf_block \<Rightarrow> pdf_section list \<times> pdf_section option
       \<Rightarrow> pdf_section list \<times> pdf_section option" where
  "scan_block isupper page_num block st =
     (if block_type block = 0 then scan_lines isupper page_num (block_lines block) st else st)"

definition extract_structure :: "(ustring \<Rightarrow> bool) \<Rightarrow> pdf_block list list \<Rightarrow> pdf_section list" where
  "extract_structure isupper doc =
    (case fold (\<lambda>(page_num, blocks) st. fold (scan_block isupper page_num) blocks st)
            (enumerate 0 doc) ([], None) of
       (sections, current_section) \<Rightarrow>
         (case current_section of None \<Rightarrow> sections | Some c \<Rightarrow> sections @ [c]))"

text \<open>\<open>str.isupper\<close> on ASCII text: some capital letter and no small letter.\<close>

definition ascii_isupper :: "ustring \<Rightarrow> bool" where
  "ascii_isupper s \<longleftrightarrow> list_ex (\<lambda>c. 65 \<le> c \<and> c \<le> 90) s \<and> \<not> list_ex (\<lambda>c. 97 \<le> c \<and> c \<le> 122) s"


text \<open>
  The classifier as the specification words it, over a line's text, font size and bold flag.
  The pattern set is spelled out without regular expressions: the text starts, letter case
  ignored, with one of seven words (a prefix match cannot tell \<open>Methods?\<close> from \<open>Method\<close>), or
  it is a numbered heading: decimal digits, at most one full stop, white space, then a
  character that \<open>[A-Z]\<close> accepts when case is ignored.
\<close>

definition starts_with_ci :: "ustring \<Rightarrow> ustring \<Rightarrow> bool" where
  "starts_with_ci kw t \<longleftrightarrow>
     length kw \<le> length t \<and> list_all2 (lit_matches True) kw (take (length kw) t)"

definition heading_keywords :: "ustring list" where
  "heading_keywords =
     [asc ''Abstract'', asc ''Introduction'', asc ''Method'', asc ''Result'',
      asc ''Discussion'', asc ''Conclusion'', asc ''Reference'']"

definition numbered_heading :: "ustring \<Rightarrow> bool" where
  "numbered_heading t \<longleftrightarrow>
     (\<exists>ds dot ws c rest. t = ds @ dot @ ws @ c # rest
        \<and> ds \<noteq> [] \<and> list_all is_decimal ds \<and> (dot = [] \<or> dot = [46])
        \<and> ws \<noteq> [] \<and> list_all isspace ws \<and> atom_matches True AZ c)"

definition spec_is_heading :: "(ustring \<Rightarrow> bool) \<Rightarrow> ustring \<Rightarrow> real \<Rightarrow> bool \<Rightarrow> bool" where
  "spec_is_heading isupper text font_size bold \<longleftrightarrow>
     (bold \<and> font_size > 12) \<or> (font_size > 12 \<and> length text < 100)
     \<or> (isupper text \<and> length text > 3)
     \<or> list_ex (\<lambda>kw. starts_with_ci kw text) heading_keywords \<or> numbered_heading text"

text \<open>
  A line of unremarkable spans (10pt, no flags), and a document for the runs below: three
  sections on page 1, the third closed by a references heading, and two blocks of
  bibliography on page 2.
\<close>

definition plain_line :: "string list \<Rightarrow> pdf_line" where
  "plain_line texts =
     \<lparr>line_spans = map (\<lambda>t. \<lparr>span_text = asc t, span_size = 10, span_flags = 0\<rparr>) texts\<rparr>"

definition example_document :: "pdf_block list list" where
  "example_document =
    [[\<lparr>block_type = 0, block_lines =
         [plain_line [''Abstract''], plain_line [''Reishi is a fungus.''],
          plain_line [''Introduction''], plain_line [''It grows on wood.'']]\<rparr>,
      \<lparr>block_type = 0, block_lines =
         [plain_line [''Methods''], plain_line [''People brew it as tea.''],
          plain_line [''References''], plain_line [''never scanned'']]\<rparr>],
     [\<lparr>block_type = 0, block_lines = [plain_line [''Smith J. Fungi. 2020.'']]\<rparr>,
      \<lparr>block_type = 0, block_lines = [plain_line [''2. Jones K. Spores. 2021.'']]\<rparr>]]"


section \<open>Construction of the chunker\<close>

text \<open>
  C9 (as amended). Constructing a chunker never fails: whatever the three integers are, also a
  \<open>chunk_size\<close> of zero or below, the constructor returns an object holding exactly
  these values. Nothing is validated at construction.
\<close>

theorem TextChunker_init_accepts_all:
  "TextChunker_init cs ov mn = Inr \<lparr>chunk_size = cs, chunk_overlap = ov, min_chunk_size = mn\<rparr>"
  by (simp add: TextChunker_init_def)

text \<open>
  C9 as stated fails: constructing with \<open>chunk_size = 0\<close> (and with \<open>-5\<close>) is no error.
\<close>

theorem TextChunker_init_zero_counterexample:
  "TextChunker_init 0 200 100 = Inr \<lparr>chunk_size = 0, chunk_overlap = 200, min_chunk_size = 100\<rparr>
   \<and> \<not> isl (TextChunker_init (- 5) 200 100)"
  by (simp add: TextChunker_init_def)


section \<open>Properties of the retriever\<close>

subsection \<open>Auxiliary facts\<close>

lemma fold_score_sum:
  "fold (\<lambda>term score. if length term < 3 then score else score + int (pycount content term)) qs a
   = a + (\<Sum>t\<leftarrow>filter (\<lambda>t. 3 \<le> length t) qs. int (pycount content t))"
  by (induction qs arbitrary: a) (auto simp: not_less)

lemma term_score_sum_list:
  "term_score qs content = (\<Sum>t\<leftarrow>filter (\<lambda>t. 3 \<le> length t) qs. int (pycount content t))"
  by (simp add: term_score_def fold_score_sum)

lemma well_typed_content: "well_typed c \<Longrightarrow> \<exists>s. content_lower lower c = Inr s"
  by (auto simp: well_typed_def content_lower_def split: option.splits pyval.splits)

lemma score_chunks_well_typed:
  "\<forall>c\<in>set chunks. well_typed c \<Longrightarrow>
   score_chunks lower qs chunks =
     Inr (map (\<lambda>c. c(asc ''score'' \<mapsto> PInt (chunk_score lower qs c)))
            (filter (\<lambda>c. chunk_score lower qs c > 0) chunks))"
proof (induction chunks)
  case Nil
  show ?case by simp
next
  case (Cons c cs)
  from Cons.prems have "well_typed c" by simp
  then obtain s where s: "content_lower lower c = Inr s" using well_typed_content by blast
  have ih: "score_chunks lower qs cs =
     Inr (map (\<lambda>c. c(asc ''score'' \<mapsto> PInt (chunk_score lower qs c)))
            (filter (\<lambda>c. chunk_score lower qs c > 0) cs))"
    by (rule Cons.IH) (use Cons.prems in simp)
  show ?case by (simp add: s ih chunk_score_def Let_def del: fun_upd_apply)
qed

lemma keyword_retrieval_well_typed:
  "\<forall>c\<in>set chunks. well_typed c \<Longrightarrow>
   keyword_retrieval lower chunks query top_k =
     Inr (slice_to top_k (sort_reverse score_key (scored_corpus lower chunks query)))"
  by (simp add: keyword_retrieval_def Let_def score_chunks_well_typed scored_corpus_def)


lemma sort_reverse_set: "set (sort_reverse key xs) = set xs"
  by (simp add: sort_reverse_def)




lemma sorted_wrt_take_ge: "sorted_wrt P xs \<Longrightarrow> sorted_wrt P (take n xs)"
  by (rule sorted_wrt_take)

lemma score_chunks_Inr_well_typed:
  "score_chunks lower qs chunks = Inr scored \<Longrightarrow> \<forall>c\<in>set chunks. well_typed c"
proof (induction chunks arbitrary: scored)
  case Nil
  show ?case by simp
next
  case (Cons c cs)
  from Cons.prems obtain s where s: "content_lower lower c = Inr s"
    by (cases "content_lower lower c") auto
  from Cons.prems s obtain rest where rest: "score_chunks lower qs cs = Inr rest"
    by (cases "score_chunks lower qs cs") (auto simp: Let_def)
  have "well_typed c" using s
    by (auto simp: well_typed_def content_lower_def split: option.splits pyval.splits)
  with Cons.IH [OF rest] show ?case by simp
qed

lemma slice_to_subset: "set (slice_to k xs) \<subseteq> set xs"
  by (auto simp: slice_to_def dest: in_set_takeD)

lemma term_score_remdups:
  "term_score (remdups ts) content = (\<Sum>t\<in>{t \<in> set ts. 3 \<le> length t}. int (pycount content t))"
proof -
  have "term_score (remdups ts) content
      = (\<Sum>t\<leftarrow>filter (\<lambda>t. 3 \<le> length t) (remdups ts). int (pycount content t))"
    by (rule term_score_sum_list)
  also have "\<dots> = (\<Sum>t\<in>set (filter (\<lambda>t. 3 \<le> length t) (remdups ts)). int (pycount content t))"
    by (rule sum_list_distinct_conv_sum_set) simp
  also have "set (filter (\<lambda>t. 3 \<le> length t) (remdups ts)) = {t \<in> set ts. 3 \<le> length t}"
    by auto
  finally show ?thesis .
qed


lemma retrieve_Inr_keyword:
  "retrieve lower chunks query top_k method = Inr rs \<Longrightarrow> r \<in> set rs \<Longrightarrow>
   keyword_retrieval lower chunks (translate_query query) top_k = Inr rs"
  by (simp add: retrieve_def Let_def vector_retrieval_def split: if_splits)

lemma keyword_retrieval_Inr_well_typed:
  "keyword_retrieval lower chunks q top_k = Inr rs \<Longrightarrow> \<forall>c\<in>set chunks. well_typed c"
  by (cases "score_chunks lower (remdups (pysplit (lower q))) chunks")
     (simp_all add: keyword_retrieval_def Let_def score_chunks_Inr_well_typed)

lemmas retrieval_eval = retrieve_def translate_query_def keywords_map_def keyword_retrieval_def pysplit_def
  isspace_def asc_def ascii_lower_def term_score_def pycount_def score_key_def sort_reverse_def
  slice_to_def content_lower_def Let_def


text \<open>A run on the example corpus: the chunk naming the fungus twice and the immune system once ranks first.\<close>

lemma retrieve_example_run:
  "retrieve ascii_lower example_corpus (asc ''Ganoderma immune'') 2 (asc ''keyword'')
     = Inr [[asc ''content'' \<mapsto> PStr (asc ''Ganoderma boosts immune cells. Ganoderma!''),
             asc ''score'' \<mapsto> PInt 3],
            [asc ''content'' \<mapsto> PStr (asc ''Ganoderma is a fungus''), asc ''score'' \<mapsto> PInt 1]]"
  by (simp add: retrieval_eval example_corpus_def fun_upd_same fun_upd_other del: fun_upd_apply)

subsection \<open>The claims\<close>



text \<open>
  C3 (as amended). Every chunk that \<open>retrieve\<close> returns is a corpus chunk extended by a score,
  and that score is the sum, over the distinct white-space delimited tokens of the lower-cased
  expanded query that have at least 3 characters, of \<open>content.count(token)\<close> on the lower-cased
  content: the number of non-overlapping occurrences, each distinct token counted once.
\<close>

theorem retrieval_score_distinct_terms:
  assumes res: "retrieve lower chunks query top_k method = Inr rs" and r: "r \<in> set rs"
  shows "\<exists>c\<in>set chunks. \<exists>content. content_lower lower c = Inr content
           \<and> r = c(asc ''score'' \<mapsto>
                 PInt (\<Sum>t\<in>{t \<in> set (pysplit (lower (translate_query query))). 3 \<le> length t}.
                          int (pycount content t)))"
proof -
  let ?q = "translate_query query"
  let ?ts = "remdups (pysplit (lower ?q))"
  from res r have kr: "keyword_retrieval lower chunks ?q top_k = Inr rs"
    by (rule retrieve_Inr_keyword)
  then have wt: "\<forall>c\<in>set chunks. well_typed c" by (rule keyword_retrieval_Inr_well_typed)
  have "(Inr rs :: error + pydict list)
      = Inr (slice_to top_k (sort_reverse score_key (scored_corpus lower chunks ?q)))"
    unfolding kr [symmetric] by (rule keyword_retrieval_well_typed [OF wt])
  then have rs: "rs = slice_to top_k (sort_reverse score_key (scored_corpus lower chunks ?q))"
    by (simp only: sum.inject)
  have "r \<in> set (slice_to top_k (sort_reverse score_key (scored_corpus lower chunks ?q)))"
    using r unfolding rs .
  then have "r \<in> set (sort_reverse score_key (scored_corpus lower chunks ?q))"
    by (rule subsetD [OF slice_to_subset])
  then have "r \<in> set (scored_corpus lower chunks ?q)" by (simp only: sort_reverse_set)
  then obtain c where c: "c \<in> set chunks"
      and rc: "r = c(asc ''score'' \<mapsto> PInt (chunk_score lower ?ts c))"
    unfolding scored_corpus_def Let_def by (auto simp del: fun_upd_apply)
  from wt c obtain content where ct: "content_lower lower c = Inr content"
    using well_typed_content by blast
  have eq: "chunk_score lower ?ts c
      = (\<Sum>t\<in>{t \<in> set (pysplit (lower ?q)). 3 \<le> length t}. int (pycount content t))"
    by (simp add: chunk_score_def ct term_score_remdups)
  show ?thesis
  proof (intro bexI exI conjI)
    show "content_lower lower c = Inr content" by fact
    show "r = c(asc ''score'' \<mapsto>
                 PInt (\<Sum>t\<in>{t \<in> set (pysplit (lower ?q)). 3 \<le> length t}. int (pycount content t)))"
      by (simp only: rc eq)
    show "c \<in> set chunks" by fact
  qed
qed

theorem retrieval_score_distinct_terms_witness:
  "retrieve ascii_lower [[asc ''content'' \<mapsto> PStr (asc ''banana'')]] (asc ''ana'') 5 (asc ''keyword'')
     = Inr [[asc ''content'' \<mapsto> PStr (asc ''banana''), asc ''score'' \<mapsto> PInt 1]]
   \<and> [asc ''content'' \<mapsto> PStr (asc ''banana''), asc ''score'' \<mapsto> PInt 1]
       = [asc ''content'' \<mapsto> PStr (asc ''banana''), asc ''score'' \<mapsto>
           PInt (\<Sum>t\<in>{t \<in> set (pysplit (ascii_lower (translate_query (asc ''ana'')))). 3 \<le> length t}.
                          int (pycount (asc ''banana'') t))]"
proof -
  let ?x = "[asc ''content'' \<mapsto> PStr (asc ''banana'')]"
  let ?r = "[asc ''content'' \<mapsto> PStr (asc ''banana''), asc ''score'' \<mapsto> PInt 1]"
  have h1: "retrieve ascii_lower [?x] (asc ''ana'') 5 (asc ''keyword'') = Inr [?r]"
    by (simp add: retrieval_eval fun_upd_same fun_upd_other del: fun_upd_apply)
  have h2: "?r \<in> set [?r]" by (simp only: list.set insertI1)
  from retrieval_score_distinct_terms [OF h1 h2]
  obtain c content where c: "c \<in> set [?x]" and ct: "content_lower ascii_lower c = Inr content"
    and r: "?r = c(asc ''score'' \<mapsto>
                 PInt (\<Sum>t\<in>{t \<in> set (pysplit (ascii_lower (translate_query (asc ''ana'')))). 3 \<le> length t}.
                          int (pycount content t)))"
    by (elim bexE exE conjE)
  from c have cx: "c = ?x" by (simp only: list.set singleton_iff empty_iff insert_iff simp_thms)
  have "content_lower ascii_lower ?x = Inr (asc ''banana'')"
    by (simp add: content_lower_def ascii_lower_def asc_def fun_upd_same del: fun_upd_apply)
  with ct cx have "content = asc ''banana''" by (simp only: sum.inject)
  with r cx have "?r = ?x(asc ''score'' \<mapsto>
                 PInt (\<Sum>t\<in>{t \<in> set (pysplit (ascii_lower (translate_query (asc ''ana'')))). 3 \<le> length t}.
                          int (pycount (asc ''banana'') t)))"
    by (simp only:)
  with h1 show ?thesis by (intro conjI)
qed

text \<open>
  C3 as stated fails twice. The token \<open>ana\<close> occurs at two (overlapping) positions of
  \<open>banana\<close>, yet the chunk is scored 1; and the query \<open>reishi reishi\<close> has two tokens of
  one occurrence each, yet the chunk is scored 1.
\<close>

theorem retrieval_score_counterexample:
  "retrieve ascii_lower [[asc ''content'' \<mapsto> PStr (asc ''banana'')]] (asc ''ana'') 5 (asc ''keyword'')
     = Inr [[asc ''content'' \<mapsto> PStr (asc ''banana''), asc ''score'' \<mapsto> PInt 1]]
   \<and> spec_score ascii_lower (asc ''ana'') (asc ''banana'') = 2
   \<and> retrieve ascii_lower [[asc ''content'' \<mapsto> PStr (asc ''reishi'')]] (asc ''reishi reishi'') 5 (asc ''keyword'')
     = Inr [[asc ''content'' \<mapsto> PStr (asc ''reishi''), asc ''score'' \<mapsto> PInt 1]]
   \<and> spec_score ascii_lower (asc ''reishi reishi'') (asc ''reishi'') = 2"
  by (simp add: retrieval_eval spec_score_def fun_upd_same fun_upd_other del: fun_upd_apply)

text \<open>
  C10. Retrieval with method \<open>vector\<close> returns exactly what method \<open>keyword\<close> returns, and
  any other method returns the empty sequence, not a failure.
\<close>

theorem retrieve_vector_alias:
  "retrieve lower chunks query top_k (asc ''vector'') = retrieve lower chunks query top_k (asc ''keyword'')
   \<and> (method \<noteq> asc ''keyword'' \<and> method \<noteq> asc ''vector''
        \<longrightarrow> retrieve lower chunks query top_k method = Inr [])"
  by (simp add: retrieve_def vector_retrieval_def asc_def Let_def)

theorem retrieve_vector_alias_witness:
  "retrieve ascii_lower [[asc ''content'' \<mapsto> PStr (asc ''immune cells'')]] (asc ''immune'') 5 (asc ''vector'')
     = retrieve ascii_lower [[asc ''content'' \<mapsto> PStr (asc ''immune cells'')]] (asc ''immune'') 5 (asc ''keyword'')
   \<and> asc ''bm25'' \<noteq> asc ''keyword'' \<and> asc ''bm25'' \<noteq> asc ''vector''
   \<and> retrieve ascii_lower [[asc ''content'' \<mapsto> PStr (asc ''immune cells'')]] (asc ''immune'') 5 (asc ''bm25'') = Inr []"
  using retrieve_vector_alias [of ascii_lower "[[asc ''content'' \<mapsto> PStr (asc ''immune cells'')]]"
      "asc ''immune''" 5 "asc ''bm25''"]
  by (simp add: asc_def)


section \<open>Properties of the chunker\<close>

subsection \<open>Auxiliary facts\<close>

lemma update_with_conv: "update_with md d = d ++ metadata_of md"
  by (simp add: update_with_def metadata_of_def split: option.splits)

lemma chunk_step_min:
  assumes "\<forall>c\<in>set (fst st). min_chunk_size cfg \<le> int (length c)"
  shows "\<forall>c\<in>set (fst (chunk_step cfg s st)). min_chunk_size cfg \<le> int (length c)"
  using assms by (cases st) (auto simp: chunk_step_def Let_def split: prod.splits)

lemma fold_chunk_step_min:
  "\<forall>c\<in>set (fst st). min_chunk_size cfg \<le> int (length c) \<Longrightarrow>
   \<forall>c\<in>set (fst (fold (chunk_step cfg) ss st)). min_chunk_size cfg \<le> int (length c)"
proof (induction ss arbitrary: st)
  case Nil
  then show ?case by simp
next
  case (Cons s ss)
  have "\<forall>c\<in>set (fst (fold (chunk_step cfg) ss (chunk_step cfg s st))). min_chunk_size cfg \<le> int (length c)"
    by (rule Cons.IH) (rule chunk_step_min [OF Cons.prems])
  then show ?case by simp
qed

lemma create_chunks_min:
  "c \<in> set (create_chunks cfg sentences) \<Longrightarrow> min_chunk_size cfg \<le> int (length c)"
proof -
  assume c: "c \<in> set (create_chunks cfg sentences)"
  obtain chunks cur sz where f: "fold (chunk_step cfg) sentences ([], [], 0) = (chunks, cur, sz)"
    by (cases "fold (chunk_step cfg) sentences ([], [], 0)") auto
  have "\<forall>c\<in>set (fst (fold (chunk_step cfg) sentences ([], [], 0))). min_chunk_size cfg \<le> int (length c)"
    by (rule fold_chunk_step_min) simp
  then have inv: "\<forall>c\<in>set chunks. min_chunk_size cfg \<le> int (length c)" by (simp add: f)
  from c inv show ?thesis
    by (auto simp: create_chunks_def f Let_def split: if_splits)
qed

lemma chunk_text_elem:
  assumes "d \<in> set (chunk_text cfg text md)"
  shows "\<exists>i c. i < length (chunk_text cfg text md) \<and> c \<in> set (create_chunks cfg (split_sentences text))
           \<and> length (chunk_text cfg text md) = length (create_chunks cfg (split_sentences text))
           \<and> create_chunks cfg (split_sentences text) ! i = c
           \<and> d = chunk_dict i (length (create_chunks cfg (split_sentences text))) c ++ metadata_of md"
proof (cases "text = [] \<or> strip text = []")
  case True
  with assms show ?thesis by (simp add: chunk_text_def)
next
  case False
  let ?cs = "create_chunks cfg (split_sentences text)"
  have ct: "chunk_text cfg text md =
      map (\<lambda>(i, c). chunk_dict i (length ?cs) c ++ metadata_of md) (enumerate 0 ?cs)"
    using False by (simp add: chunk_text_def Let_def update_with_conv)
  from assms obtain i c where ic: "(i, c) \<in> set (enumerate 0 ?cs)"
      and d: "d = chunk_dict i (length ?cs) c ++ metadata_of md"
    unfolding ct by auto
  from ic have "i < length ?cs" "?cs ! i = c" by (auto simp: in_set_enumerate_eq)
  moreover then have "c \<in> set ?cs" by auto
  moreover have "length (chunk_text cfg text md) = length ?cs" by (simp add: ct)
  ultimately show ?thesis using d by auto
qed

lemma chunk_text_nth:
  assumes "i < length (chunk_text cfg text md)"
  shows "chunk_text cfg text md ! i =
     chunk_dict i (length (chunk_text cfg text md)) (create_chunks cfg (split_sentences text) ! i)
       ++ metadata_of md"
proof (cases "text = [] \<or> strip text = []")
  case True
  with assms show ?thesis by (simp add: chunk_text_def)
next
  case False
  let ?cs = "create_chunks cfg (split_sentences text)"
  have ct: "chunk_text cfg text md =
      map (\<lambda>(i, c). chunk_dict i (length ?cs) c ++ metadata_of md) (enumerate 0 ?cs)"
    using False by (simp add: chunk_text_def Let_def update_with_conv)
  have len: "length (chunk_text cfg text md) = length ?cs" by (simp add: ct)
  with assms have i: "i < length ?cs" by simp
  show ?thesis unfolding len unfolding ct using i by (simp add: nth_enumerate_eq)
qed

lemma chunk_dict_lookup:
  "chunk_dict i n c (asc ''chunk_index'') = Some (PInt (int i))"
  "chunk_dict i n c (asc ''total_chunks'') = Some (PInt (int n))"
  "chunk_dict i n c (asc ''content'') = Some (PStr c)"
  "chunk_dict i n c (asc ''char_count'') = Some (PInt (int (length c)))"
  "chunk_dict i n c (asc ''word_count'') = Some (PInt (int (length (pysplit c))))"
  by (simp_all add: chunk_dict_def asc_def)

lemma map_add_absent: "m k = None \<Longrightarrow> (d ++ m) k = d k"
  by (simp add: map_add_def)

lemma map_add_present: "m k = Some v \<Longrightarrow> (d ++ m) k = Some v"
  by (simp add: map_add_def)

lemma chunk_text_dense:
  assumes ci: "metadata_of md (asc ''chunk_index'') = None"
    and tc: "metadata_of md (asc ''total_chunks'') = None"
  shows "dense_indices (chunk_text cfg text md)"
proof -
  let ?out = "chunk_text cfg text md"
  have a: "map (\<lambda>d. d (asc ''chunk_index'')) ?out = map (\<lambda>i. Some (PInt (int i))) [0..<length ?out]"
  proof (rule nth_equalityI)
    show "length (map (\<lambda>d. d (asc ''chunk_index'')) ?out) = length (map (\<lambda>i. Some (PInt (int i))) [0..<length ?out])"
      by simp
  next
    fix i assume "i < length (map (\<lambda>d. d (asc ''chunk_index'')) ?out)"
    then have i: "i < length ?out" by simp
    have "(?out ! i) (asc ''chunk_index'') = Some (PInt (int i))"
      unfolding chunk_text_nth [OF i] by (simp add: map_add_def ci chunk_dict_lookup)
    with i show "map (\<lambda>d. d (asc ''chunk_index'')) ?out ! i = map (\<lambda>i. Some (PInt (int i))) [0..<length ?out] ! i"
      by simp
  qed
  have b: "map (\<lambda>d. d (asc ''total_chunks'')) ?out = replicate (length ?out) (Some (PInt (int (length ?out))))"
  proof (rule nth_equalityI)
    show "length (map (\<lambda>d. d (asc ''total_chunks'')) ?out) = length (replicate (length ?out) (Some (PInt (int (length ?out)))))"
      by simp
  next
    fix i assume "i < length (map (\<lambda>d. d (asc ''total_chunks'')) ?out)"
    then have i: "i < length ?out" by simp
    have "(?out ! i) (asc ''total_chunks'') = Some (PInt (int (length ?out)))"
      unfolding chunk_text_nth [OF i] by (simp add: map_add_def tc chunk_dict_lookup)
    with i show "map (\<lambda>d. d (asc ''total_chunks'')) ?out ! i = replicate (length ?out) (Some (PInt (int (length ?out)))) ! i"
      by simp
  qed
  from a b show ?thesis unfolding dense_indices_def by (rule conjI)
qed

lemma chunk_by_sections_length:
  "length (chunk_by_sections cfg secs md) = length (concat (map (section_chunks cfg md) secs))"
  by (simp add: chunk_by_sections_def Let_def)

lemma chunk_by_sections_nth:
  assumes "i < length (chunk_by_sections cfg secs md)"
  shows "chunk_by_sections cfg secs md ! i =
    (concat (map (section_chunks cfg md) secs) ! i)
      (asc ''chunk_index'' \<mapsto> PInt (int i),
       asc ''total_chunks'' \<mapsto> PInt (int (length (chunk_by_sections cfg secs md))))"
proof -
  let ?all = "concat (map (section_chunks cfg md) secs)"
  from assms have i: "i < length ?all" by (simp only: chunk_by_sections_length)
  have "chunk_by_sections cfg secs md =
      map (\<lambda>(i, chunk). chunk(asc ''chunk_index'' \<mapsto> PInt (int i),
                                  asc ''total_chunks'' \<mapsto> PInt (int (length ?all))))
          (enumerate 0 ?all)"
    by (simp add: chunk_by_sections_def Let_def del: fun_upd_apply)
  then have "chunk_by_sections cfg secs md ! i =
      (?all ! i)(asc ''chunk_index'' \<mapsto> PInt (int i), asc ''total_chunks'' \<mapsto> PInt (int (length ?all)))"
    using i by (simp add: nth_enumerate_eq del: fun_upd_apply)
  then show ?thesis by (simp only: chunk_by_sections_length)
qed

lemma chunk_by_sections_dense: "dense_indices (chunk_by_sections cfg secs md)"
proof -
  let ?out = "chunk_by_sections cfg secs md"
  have a: "map (\<lambda>d. d (asc ''chunk_index'')) ?out = map (\<lambda>i. Some (PInt (int i))) [0..<length ?out]"
  proof (rule nth_equalityI)
    show "length (map (\<lambda>d. d (asc ''chunk_index'')) ?out) = length (map (\<lambda>i. Some (PInt (int i))) [0..<length ?out])"
      by simp
  next
    fix i assume "i < length (map (\<lambda>d. d (asc ''chunk_index'')) ?out)"
    then have i: "i < length ?out" by simp
    have "(?out ! i) (asc ''chunk_index'') = Some (PInt (int i))"
      unfolding chunk_by_sections_nth [OF i] by (simp add: asc_def)
    with i show "map (\<lambda>d. d (asc ''chunk_index'')) ?out ! i = map (\<lambda>i. Some (PInt (int i))) [0..<length ?out] ! i"
      by simp
  qed
  have b: "map (\<lambda>d. d (asc ''total_chunks'')) ?out = replicate (length ?out) (Some (PInt (int (length ?out))))"
  proof (rule nth_equalityI)
    show "length (map (\<lambda>d. d (asc ''total_chunks'')) ?out) = length (replicate (length ?out) (Some (PInt (int (length ?out)))))"
      by simp
  next
    fix i assume "i < length (map (\<lambda>d. d (asc ''total_chunks'')) ?out)"
    then have i: "i < length ?out" by simp
    have "(?out ! i) (asc ''total_chunks'') = Some (PInt (int (length ?out)))"
      unfolding chunk_by_sections_nth [OF i] by simp
    with i show "map (\<lambda>d. d (asc ''total_chunks'')) ?out ! i = replicate (length ?out) (Some (PInt (int (length ?out)))) ! i"
      by simp
  qed
  from a b show ?thesis unfolding dense_indices_def by (rule conjI)
qed

lemma chunk_by_sections_other_keys:
  assumes k: "k \<noteq> asc ''chunk_index''" "k \<noteq> asc ''total_chunks''"
  shows "map (\<lambda>d. d k) (chunk_by_sections cfg secs md)
       = map (\<lambda>d. d k) (concat (map (section_chunks cfg md) secs))"
proof (rule nth_equalityI)
  show "length (map (\<lambda>d. d k) (chunk_by_sections cfg secs md))
      = length (map (\<lambda>d. d k) (concat (map (section_chunks cfg md) secs)))"
    by (simp add: chunk_by_sections_length)
next
  fix i assume "i < length (map (\<lambda>d. d k) (chunk_by_sections cfg secs md))"
  then have i: "i < length (chunk_by_sections cfg secs md)" by simp
  then have i': "i < length (concat (map (section_chunks cfg md) secs))"
    by (simp only: chunk_by_sections_length)
  have "(chunk_by_sections cfg secs md ! i) k = (concat (map (section_chunks cfg md) secs) ! i) k"
    unfolding chunk_by_sections_nth [OF i] using k by simp
  with i i' show "map (\<lambda>d. d k) (chunk_by_sections cfg secs md) ! i
      = map (\<lambda>d. d k) (concat (map (section_chunks cfg md) secs)) ! i"
    by simp
qed

text \<open>Runs of the chunker on the example text.\<close>

lemmas chunk_eval = chunk_text_def split_sentences_def create_chunks_def chunk_step_def
  strip_def isspace_def is_sentence_end_def is_ascii_upper_def Let_def asc_def update_with_def
  default_chunker_def

lemmas chunk_eval2 = chunk_eval example_chunker_def example_text_def chunk_dict_def metadata_of_def

lemma example_sentences:
  "split_sentences example_text
   = [asc ''Reishi is a fungus.'', asc ''It grows on wood.'', asc ''People brew it as tea.'']"
  by (simp add: chunk_eval2)

lemma example_chunks:
  "create_chunks example_chunker (split_sentences example_text)
   = [asc ''Reishi is a fungus. It grows on wood.'', asc ''It grows on wood. People brew it as tea.'']"
  unfolding example_sentences by (simp add: chunk_eval2)

lemma example_chunk_text_length: "length (chunk_text example_chunker example_text md) = 2"
proof -
  have "example_text \<noteq> [] \<and> strip example_text \<noteq> []" by (simp add: chunk_eval2)
  then show ?thesis by (simp add: chunk_text_def Let_def example_chunks)
qed

lemma example_chunk_text:
  "chunk_text example_chunker example_text md =
    [update_with md (chunk_dict 0 2 (asc ''Reishi is a fungus. It grows on wood.'')),
     update_with md (chunk_dict 1 2 (asc ''It grows on wood. People brew it as tea.''))]"
proof -
  have "example_text \<noteq> [] \<and> strip example_text \<noteq> []" by (simp add: chunk_eval2)
  then show ?thesis by (simp add: chunk_text_def Let_def example_chunks numeral_2_eq_2)
qed


subsection \<open>The claims\<close>

text \<open>
  C2 (as amended). Every chunk that \<open>_create_chunks\<close> returns has length at least
  \<open>min_chunk_size\<close>, the last one included: the final buffer is dropped like any other when
  it is shorter. Hence every chunk returned by \<open>chunk_text\<close> has a content of at least
  \<open>min_chunk_size\<close> characters (when the metadata does not replace \<open>content\<close>).
\<close>

theorem chunks_at_least_min:
  "(\<forall>c\<in>set (create_chunks cfg sentences). min_chunk_size cfg \<le> int (length c))
   \<and> (\<forall>d\<in>set (chunk_text cfg text md). metadata_of md (asc ''content'') = None \<longrightarrow>
         (\<exists>c. d (asc ''content'') = Some (PStr c) \<and> min_chunk_size cfg \<le> int (length c)))"
proof (intro conjI ballI impI)
  fix c assume "c \<in> set (create_chunks cfg sentences)"
  then show "min_chunk_size cfg \<le> int (length c)" by (rule create_chunks_min)
next
  fix d assume d: "d \<in> set (chunk_text cfg text md)"
    and nc: "metadata_of md (asc ''content'') = None"
  from chunk_text_elem [OF d] obtain i c where
    c: "c \<in> set (create_chunks cfg (split_sentences text))"
    and dd: "d = chunk_dict i (length (create_chunks cfg (split_sentences text))) c ++ metadata_of md"
    by blast
  have "d (asc ''content'') = Some (PStr c)"
    unfolding dd by (simp add: map_add_def nc chunk_dict_lookup)
  moreover have "min_chunk_size cfg \<le> int (length c)" using c by (rule create_chunks_min)
  ultimately show "\<exists>c. d (asc ''content'') = Some (PStr c) \<and> min_chunk_size cfg \<le> int (length c)"
    by (intro exI conjI)
qed

theorem chunks_at_least_min_witness:
  "asc ''It grows on wood. People brew it as tea.'' \<in> set (create_chunks example_chunker (split_sentences example_text))
   \<and> min_chunk_size example_chunker \<le> int (length (asc ''It grows on wood. People brew it as tea.''))
   \<and> metadata_of None (asc ''content'') = None
   \<and> (\<exists>c. (chunk_text example_chunker example_text None ! 1) (asc ''content'') = Some (PStr c)
          \<and> min_chunk_size example_chunker \<le> int (length c))"
proof -
  have m: "asc ''It grows on wood. People brew it as tea.'' \<in> set (create_chunks example_chunker (split_sentences example_text))"
    unfolding example_chunks by simp
  have d: "chunk_text example_chunker example_text None ! 1 \<in> set (chunk_text example_chunker example_text None)"
    by (rule nth_mem) (simp add: example_chunk_text_length)
  have n: "metadata_of None (asc ''content'') = None" by (simp add: metadata_of_def)
  note t = chunks_at_least_min [of example_chunker "split_sentences example_text" example_text None]
  from t m have "min_chunk_size example_chunker \<le> int (length (asc ''It grows on wood. People brew it as tea.''))"
    by blast
  moreover from t d n have "\<exists>c. (chunk_text example_chunker example_text None ! 1) (asc ''content'') = Some (PStr c)
          \<and> min_chunk_size example_chunker \<le> int (length c)"
    by blast
  ultimately show ?thesis using m n by (intro conjI)
qed

text \<open>
  C2 as stated fails: the final remainder is not kept when it is short. With the default
  configuration the one-sentence text \<open>Hello world.\<close> yields no chunk at all, and with
  \<open>min_chunk_size = 30\<close> the 22 characters of the last sentence of the example text are
  dropped behind a first chunk that is kept.
\<close>

theorem chunks_at_least_min_counterexample:
  "chunk_text default_chunker (asc ''Hello world.'') None = []
   \<and> split_sentences example_text
       = [asc ''Reishi is a fungus.'', asc ''It grows on wood.'', asc ''People brew it as tea.'']
   \<and> create_chunks \<lparr>chunk_size = 40, chunk_overlap = 0, min_chunk_size = 30\<rparr> (split_sentences example_text)
       = [asc ''Reishi is a fungus. It grows on wood.'']"
proof -
  have a: "chunk_text default_chunker (asc ''Hello world.'') None = []" by (simp add: chunk_eval)
  have b: "create_chunks \<lparr>chunk_size = 40, chunk_overlap = 0, min_chunk_size = 30\<rparr> (split_sentences example_text)
       = [asc ''Reishi is a fungus. It grows on wood.'']"
    unfolding example_sentences by (simp add: chunk_eval)
  from a example_sentences b show ?thesis by (intro conjI)
qed

text \<open>
  C6 (as amended). The output of \<open>chunk_by_sections\<close> is always index dense, and on every
  other key it is the concatenation of the per-section chunk sequences in section order. The
  output of \<open>chunk_text\<close> is index dense whenever the caller's metadata has neither the key
  \<open>chunk_index\<close> nor the key \<open>total_chunks\<close>.
\<close>

theorem chunk_indices_dense:
  "dense_indices (chunk_by_sections cfg secs md)
   \<and> (\<forall>k. k \<noteq> asc ''chunk_index'' \<and> k \<noteq> asc ''total_chunks'' \<longrightarrow>
         map (\<lambda>d. d k) (chunk_by_sections cfg secs md)
           = map (\<lambda>d. d k) (concat (map (section_chunks cfg md) secs)))
   \<and> (metadata_of md (asc ''chunk_index'') = None \<and> metadata_of md (asc ''total_chunks'') = None
        \<longrightarrow> dense_indices (chunk_text cfg text md))"
  using chunk_by_sections_dense chunk_by_sections_other_keys chunk_text_dense by blast

theorem chunk_indices_dense_witness:
  "asc ''content'' \<noteq> asc ''chunk_index'' \<and> asc ''content'' \<noteq> asc ''total_chunks''
   \<and> map (\<lambda>d. d (asc ''content'')) (chunk_by_sections example_chunker [\<lparr>sec_title = asc ''Abstract'', sec_page = 1, sec_content = [example_text]\<rparr>] None)
       = map (\<lambda>d. d (asc ''content'')) (concat (map (section_chunks example_chunker None) [\<lparr>sec_title = asc ''Abstract'', sec_page = 1, sec_content = [example_text]\<rparr>]))
   \<and> metadata_of (Some [asc ''source'' \<mapsto> PStr (asc ''test'')]) (asc ''chunk_index'') = None
   \<and> metadata_of (Some [asc ''source'' \<mapsto> PStr (asc ''test'')]) (asc ''total_chunks'') = None
   \<and> dense_indices (chunk_text example_chunker example_text (Some [asc ''source'' \<mapsto> PStr (asc ''test'')]))
   \<and> length (chunk_text example_chunker example_text (Some [asc ''source'' \<mapsto> PStr (asc ''test'')])) = 2"
proof -
  let ?md = "Some [asc ''source'' \<mapsto> PStr (asc ''test'')]"
  let ?secs = "[\<lparr>sec_title = asc ''Abstract'', sec_page = 1, sec_content = [example_text]\<rparr>]"
  have k1: "asc ''content'' \<noteq> asc ''chunk_index''" and k2: "asc ''content'' \<noteq> asc ''total_chunks''"
    by (simp_all add: asc_def)
  have m1: "metadata_of ?md (asc ''chunk_index'') = None" and m2: "metadata_of ?md (asc ''total_chunks'') = None"
    by (simp_all add: metadata_of_def asc_def)
  from chunk_indices_dense [of example_chunker ?secs None] k1 k2 have c1: "map (\<lambda>d. d (asc ''content'')) (chunk_by_sections example_chunker ?secs None)
       = map (\<lambda>d. d (asc ''content'')) (concat (map (section_chunks example_chunker None) ?secs))"
    by blast
  from chunk_indices_dense [of example_chunker ?secs ?md example_text] m1 m2 have c2: "dense_indices (chunk_text example_chunker example_text ?md)" by blast
  from k1 k2 c1 m1 m2 c2 example_chunk_text_length [of ?md] show ?thesis by (intro conjI)
qed

text \<open>
  C6 as stated fails for \<open>chunk_text\<close>: metadata holding \<open>chunk_index = 7\<close> is merged last,
  so both chunks of the example text carry index 7.
\<close>

theorem chunk_indices_dense_counterexample:
  "map (\<lambda>d. d (asc ''chunk_index''))
     (chunk_text example_chunker example_text (Some [asc ''chunk_index'' \<mapsto> PInt 7]))
   = [Some (PInt 7), Some (PInt 7)]
   \<and> \<not> dense_indices (chunk_text example_chunker example_text (Some [asc ''chunk_index'' \<mapsto> PInt 7]))"
proof -
  have ne: "example_text \<noteq> [] \<and> strip example_text \<noteq> []" by (simp add: chunk_eval2)
  have a: "map (\<lambda>d. d (asc ''chunk_index''))
     (chunk_text example_chunker example_text (Some [asc ''chunk_index'' \<mapsto> PInt 7]))
   = [Some (PInt 7), Some (PInt 7)]"
    using ne by (simp add: chunk_text_def Let_def example_chunks update_with_def)
  have "\<not> dense_indices (chunk_text example_chunker example_text (Some [asc ''chunk_index'' \<mapsto> PInt 7]))"
    unfolding dense_indices_def a by (simp add: example_chunk_text_length numeral_2_eq_2)
  with a show ?thesis by (intro conjI)
qed

text \<open>
  C7 (as amended). Every chunk returned by \<open>chunk_text\<close> carries every key of the caller's
  metadata with the caller's value (caller keys win). When the metadata does not hold
  \<open>content\<close>, the chunk's content is a string, and then \<open>char_count\<close> is its length unless
  the metadata holds \<open>char_count\<close>, and \<open>word_count\<close> is its number of white-space
  delimited tokens unless the metadata holds \<open>word_count\<close>.
\<close>

theorem chunk_metadata_merge:
  assumes d: "d \<in> set (chunk_text cfg text md)"
  shows "(\<forall>k v. metadata_of md k = Some v \<longrightarrow> d k = Some v)
   \<and> (metadata_of md (asc ''content'') = None \<longrightarrow>
        (\<exists>c. d (asc ''content'') = Some (PStr c)
           \<and> (metadata_of md (asc ''char_count'') = None
                \<longrightarrow> d (asc ''char_count'') = Some (PInt (int (length c))))
           \<and> (metadata_of md (asc ''word_count'') = None
                \<longrightarrow> d (asc ''word_count'') = Some (PInt (int (length (pysplit c)))))))"
proof -
  from chunk_text_elem [OF d] obtain i c n where
    dd: "d = chunk_dict i n c ++ metadata_of md" by blast
  show ?thesis
  proof (intro conjI allI impI)
    fix k v assume "metadata_of md k = Some v"
    then show "d k = Some v" unfolding dd by (rule map_add_present)
  next
    assume nc: "metadata_of md (asc ''content'') = None"
    show "\<exists>c. d (asc ''content'') = Some (PStr c)
           \<and> (metadata_of md (asc ''char_count'') = None
                \<longrightarrow> d (asc ''char_count'') = Some (PInt (int (length c))))
           \<and> (metadata_of md (asc ''word_count'') = None
                \<longrightarrow> d (asc ''word_count'') = Some (PInt (int (length (pysplit c)))))"
    proof (intro exI [of _ c] conjI impI)
      show "d (asc ''content'') = Some (PStr c)"
        unfolding dd by (simp add: map_add_def nc chunk_dict_lookup)
    next
      assume a: "metadata_of md (asc ''char_count'') = None"
      show "d (asc ''char_count'') = Some (PInt (int (length c)))"
        unfolding dd by (simp add: map_add_def a chunk_dict_lookup)
    next
      assume a: "metadata_of md (asc ''word_count'') = None"
      show "d (asc ''word_count'') = Some (PInt (int (length (pysplit c))))"
        unfolding dd by (simp add: map_add_def a chunk_dict_lookup)
    qed
  qed
qed

theorem chunk_metadata_merge_witness:
  "chunk_text example_chunker example_text (Some [asc ''source'' \<mapsto> PStr (asc ''test'')]) ! 0
     \<in> set (chunk_text example_chunker example_text (Some [asc ''source'' \<mapsto> PStr (asc ''test'')]))
   \<and> metadata_of (Some [asc ''source'' \<mapsto> PStr (asc ''test'')]) (asc ''source'') = Some (PStr (asc ''test''))
   \<and> (chunk_text example_chunker example_text (Some [asc ''source'' \<mapsto> PStr (asc ''test'')]) ! 0) (asc ''source'')
       = Some (PStr (asc ''test''))
   \<and> metadata_of (Some [asc ''source'' \<mapsto> PStr (asc ''test'')]) (asc ''content'') = None
   \<and> metadata_of (Some [asc ''source'' \<mapsto> PStr (asc ''test'')]) (asc ''char_count'') = None
   \<and> metadata_of (Some [asc ''source'' \<mapsto> PStr (asc ''test'')]) (asc ''word_count'') = None
   \<and> (\<exists>c. (chunk_text example_chunker example_text (Some [asc ''source'' \<mapsto> PStr (asc ''test'')]) ! 0) (asc ''content'')
              = Some (PStr c)
          \<and> (chunk_text example_chunker example_text (Some [asc ''source'' \<mapsto> PStr (asc ''test'')]) ! 0) (asc ''char_count'')
              = Some (PInt (int (length c)))
          \<and> (chunk_text example_chunker example_text (Some [asc ''source'' \<mapsto> PStr (asc ''test'')]) ! 0) (asc ''word_count'')
              = Some (PInt (int (length (pysplit c)))))"
proof -
  let ?md = "Some [asc ''source'' \<mapsto> PStr (asc ''test'')]"
  let ?d = "chunk_text example_chunker example_text ?md ! 0"
  have d: "?d \<in> set (chunk_text example_chunker example_text ?md)"
    by (rule nth_mem) (simp add: example_chunk_text_length)
  have s: "metadata_of ?md (asc ''source'') = Some (PStr (asc ''test''))"
    by (simp add: metadata_of_def)
  have n1: "metadata_of ?md (asc ''content'') = None"
    and n2: "metadata_of ?md (asc ''char_count'') = None"
    and n3: "metadata_of ?md (asc ''word_count'') = None"
    by (simp_all add: metadata_of_def asc_def)
  note t = chunk_metadata_merge [OF d]
  from t s have c1: "?d (asc ''source'') = Some (PStr (asc ''test''))" by blast
  from t n1 n2 n3 have c2: "\<exists>c. ?d (asc ''content'') = Some (PStr c)
          \<and> ?d (asc ''char_count'') = Some (PInt (int (length c)))
          \<and> ?d (asc ''word_count'') = Some (PInt (int (length (pysplit c))))"
    by blast
  from d s c1 n1 n2 n3 c2 show ?thesis by (intro conjI)
qed

text \<open>
  C7 as stated fails: with metadata \<open>{'char_count': 0}\<close> the first chunk of the example text
  has a content of 37 characters and \<open>char_count = 0\<close>.
\<close>

theorem chunk_metadata_merge_counterexample:
  "(chunk_text example_chunker example_text (Some [asc ''char_count'' \<mapsto> PInt 0]) ! 0) (asc ''content'')
     = Some (PStr (asc ''Reishi is a fungus. It grows on wood.''))
   \<and> (chunk_text example_chunker example_text (Some [asc ''char_count'' \<mapsto> PInt 0]) ! 0) (asc ''char_count'')
     = Some (PInt 0)
   \<and> length (asc ''Reishi is a fungus. It grows on wood.'') = 37"
  by (simp add: example_chunk_text update_with_def chunk_dict_def asc_def)


subsection \<open>Overlap between buffers\<close>

lemma total_length_simps [simp]:
  "total_length [] = 0"
  "total_length (s # ss) = int (length s) + total_length ss"
  "total_length (xs @ ys) = total_length xs + total_length ys"
  by (simp_all add: total_length_def)

lemma total_length_nonneg: "0 \<le> total_length ss"
  by (induction ss) auto

lemma total_length_rev [simp]: "total_length (rev ss) = total_length ss"
  by (induction ss) auto

lemma total_length_drop_le: "total_length (drop n ss) \<le> total_length ss"
proof -
  have "total_length ss = total_length (take n ss) + total_length (drop n ss)"
    by (metis append_take_drop_id total_length_simps(3))
  with total_length_nonneg [of "take n ss"] show ?thesis by linarith
qed

lemma overlap_loop_conv:
  "overlap_loop ov xs acc sz =
     (rev (take (take_count ov xs sz) xs) @ acc, sz + total_length (take (take_count ov xs sz) xs))"
  by (induction xs arbitrary: acc sz) auto

lemma take_count_le: "take_count ov xs sz \<le> length xs"
  by (induction xs arbitrary: sz) auto

lemma take_count_bound:
  "sz \<le> ov \<Longrightarrow> sz + total_length (take (take_count ov xs sz) xs) \<le> ov"
proof (induction xs arbitrary: sz)
  case Nil
  then show ?case by simp
next
  case (Cons a xs)
  show ?case
  proof (cases "sz + int (length a) \<le> ov")
    case True
    from Cons.IH [OF True] show ?thesis using True by (simp add: add.assoc)
  next
    case False
    with Cons.prems show ?thesis by simp
  qed
qed

lemma take_count_maximal:
  "take_count ov xs sz < length xs \<Longrightarrow>
   ov < sz + total_length (take (Suc (take_count ov xs sz)) xs)"
proof (induction xs arbitrary: sz)
  case Nil
  then show ?case by simp
next
  case (Cons a xs)
  show ?case
  proof (cases "sz + int (length a) \<le> ov")
    case True
    with Cons.prems have "take_count ov xs (sz + int (length a)) < length xs" by simp
    from Cons.IH [OF this] show ?thesis using True by (simp add: add.assoc)
  next
    case False
    then show ?thesis by simp
  qed
qed

lemma carried_conv:
  "carried cfg buf = drop (length buf - take_count (chunk_overlap cfg) (rev buf) 0) buf"
  by (simp add: carried_def overlap_loop_conv rev_take)

lemma carried_suffix: "suffix (carried cfg buf) buf"
  unfolding carried_conv by (rule suffix_drop)

lemma carried_length_le: "length (carried cfg buf) \<le> length buf"
  using carried_suffix by (rule suffix_length_le)

lemma overlap_size_conv:
  "snd (overlap_loop (chunk_overlap cfg) (rev buf) [] 0) = total_length (carried cfg buf)"
proof -
  let ?k = "take_count (chunk_overlap cfg) (rev buf) 0"
  have "total_length (carried cfg buf) = total_length (rev (take ?k (rev buf)))"
    by (simp add: carried_def overlap_loop_conv)
  then show ?thesis by (simp add: overlap_loop_conv)
qed

lemma carried_bound:
  "0 \<le> chunk_overlap cfg \<Longrightarrow> total_length (carried cfg buf) \<le> chunk_overlap cfg"
  using take_count_bound [of 0 "chunk_overlap cfg" "rev buf"]
  by (simp add: carried_def overlap_loop_conv)

lemma carried_maximal:
  assumes "carried cfg buf \<noteq> buf"
  shows "\<exists>front s. buf = front @ s # carried cfg buf
           \<and> chunk_overlap cfg < total_length (carried cfg buf) + int (length s)"
proof -
  let ?ov = "chunk_overlap cfg"
  let ?k = "take_count ?ov (rev buf) 0"
  have kle: "?k \<le> length buf" using take_count_le [of ?ov "rev buf" 0] by simp
  have "?k \<noteq> length buf" using assms by (auto simp: carried_conv)
  with kle have klt: "?k < length buf" by simp
  let ?m = "length buf - Suc ?k"
  have m: "?m < length buf" using klt by simp
  have d: "drop ?m buf = buf ! ?m # drop (Suc ?m) buf" using m by (rule Cons_nth_drop_Suc [symmetric])
  have sm: "Suc ?m = length buf - ?k" using klt by simp
  have buf: "buf = take ?m buf @ buf ! ?m # carried cfg buf"
    unfolding carried_conv sm [symmetric] d [symmetric] by simp
  have "?ov < 0 + total_length (take (Suc ?k) (rev buf))"
    by (rule take_count_maximal) (use klt in simp)
  also have "take (Suc ?k) (rev buf) = rev (drop ?m buf)"
    by (simp add: take_rev)
  also have "total_length (rev (drop ?m buf)) = int (length (buf ! ?m)) + total_length (carried cfg buf)"
    unfolding d by (simp add: carried_conv sm)
  finally have "?ov < total_length (carried cfg buf) + int (length (buf ! ?m))" by simp
  with buf show ?thesis by blast
qed

lemma segment_length: "b \<le> length xs \<Longrightarrow> length (segment xs (a, b)) = b - a"
  by (simp add: segment_def)

lemma segment_Suc:
  "a \<le> n \<Longrightarrow> n < length xs \<Longrightarrow> segment xs (a, Suc n) = segment xs (a, n) @ [xs ! n]"
  by (simp add: segment_def take_Suc_conv_app_nth)

lemma segment_empty_iff: "b \<le> length xs \<Longrightarrow> segment xs (a, b) = [] \<longleftrightarrow> b \<le> a"
  by (simp add: segment_def)

lemma segment_drop:
  "a \<le> a' \<Longrightarrow> segment xs (a', b) = drop (a' - a) (segment xs (a, b))"
  by (simp add: segment_def)

lemma carried_segment:
  assumes "a \<le> n" "n \<le> length ss"
  shows "carried cfg (segment ss (a, n)) = segment ss (n - length (carried cfg (segment ss (a, n))), n)"
    and "a \<le> n - length (carried cfg (segment ss (a, n)))"
proof -
  let ?cur = "segment ss (a, n)"
  let ?c = "carried cfg ?cur"
  have len: "length ?cur = n - a" using assms by (simp add: segment_length)
  have sf: "suffix ?c ?cur" by (rule carried_suffix)
  then have cl: "length ?c \<le> n - a" using len suffix_length_le by fastforce
  then show "a \<le> n - length ?c" using assms by simp
  from sf have "?c = drop (length ?cur - length ?c) ?cur"
    by (metis suffix_def append_eq_conv_conj length_append add_diff_cancel_right')
  also have "\<dots> = drop (n - a - length ?c) ?cur" by (simp only: len)
  also have "\<dots> = segment ss (n - length ?c, n)"
    using cl assms by (simp add: segment_def)
  finally show "?c = segment ss (n - length ?c, n)" .
qed

lemma refine_step:
  assumes n: "n < length ss" and st: "start \<le> n"
  shows "chunk_step cfg (ss ! n)
           (filter (keep cfg) (map (\<lambda>p. join (asc '' '') (segment ss p)) spans), segment ss (start, n), sz)
       = (case span_step cfg ss n (spans, start, sz) of (spans', start', sz') \<Rightarrow>
            (filter (keep cfg) (map (\<lambda>p. join (asc '' '') (segment ss p)) spans'),
             segment ss (start', Suc n), sz'))
       \<and> fst (snd (span_step cfg ss n (spans, start, sz))) \<le> Suc n"
proof (cases "sz + int (length (ss ! n)) > chunk_size cfg \<and> start < n")
  case False
  have ne: "segment ss (start, n) \<noteq> [] \<longleftrightarrow> start < n"
    using n by (simp add: segment_empty_iff not_le)
  from False ne have c: "\<not> (sz + int (length (ss ! n)) > chunk_size cfg \<and> segment ss (start, n) \<noteq> [])"
    by simp
  have A: "chunk_step cfg (ss ! n)
           (filter (keep cfg) (map (\<lambda>p. join (asc '' '') (segment ss p)) spans), segment ss (start, n), sz)
      = (filter (keep cfg) (map (\<lambda>p. join (asc '' '') (segment ss p)) spans),
         segment ss (start, n) @ [ss ! n], sz + int (length (ss ! n)))"
    by (simp only: chunk_step_def prod.case Let_def if_not_P [OF c])
  have B: "span_step cfg ss n (spans, start, sz) = (spans, start, sz + int (length (ss ! n)))"
    by (simp only: span_step_def prod.case Let_def if_not_P [OF False])
  show ?thesis unfolding A B using st n by (simp add: segment_Suc)
next
  case True
  let ?cur = "segment ss (start, n)"
  let ?c = "carried cfg ?cur"
  have ne: "?cur \<noteq> []" using True n by (simp add: segment_empty_iff)
  have nle: "n \<le> length ss" using n by simp
  have cs: "?c = segment ss (n - length ?c, n)" by (rule carried_segment(1) [OF st nle])
  have seg: "segment ss (n - length ?c, Suc n) = ?c @ [ss ! n]"
    using segment_Suc [of "n - length ?c" n ss] n cs by simp
  obtain os osz where ol: "overlap_loop (chunk_overlap cfg) (rev ?cur) [] 0 = (os, osz)"
    by (cases "overlap_loop (chunk_overlap cfg) (rev ?cur) [] 0") auto
  have os: "os = ?c" by (simp add: carried_def ol)
  have osz: "osz = total_length ?c" using overlap_size_conv [of cfg ?cur] by (simp add: ol)
  show ?thesis
    using True ne
    by (simp add: chunk_step_def span_step_def Let_def ol os osz seg keep_def)
qed

lemma refine_fold:
  "n \<le> length ss \<Longrightarrow>
   (case fold (span_step cfg ss) [0..<n] ([], 0, 0) of (spans, start, sz) \<Rightarrow>
      fold (chunk_step cfg) (take n ss) ([], [], 0)
        = (filter (keep cfg) (map (\<lambda>p. join (asc '' '') (segment ss p)) spans), segment ss (start, n), sz)
      \<and> start \<le> n)"
proof (induction n)
  case 0
  show ?case by (simp add: segment_def)
next
  case (Suc n)
  then have n: "n < length ss" by simp
  obtain spans start sz where f: "fold (span_step cfg ss) [0..<n] ([], 0, 0) = (spans, start, sz)"
    by (cases "fold (span_step cfg ss) [0..<n] ([], 0, 0)") auto
  from Suc.IH n f have ih: "fold (chunk_step cfg) (take n ss) ([], [], 0)
        = (filter (keep cfg) (map (\<lambda>p. join (asc '' '') (segment ss p)) spans), segment ss (start, n), sz)"
    and st: "start \<le> n" by simp_all
  obtain spans' start' sz' where g: "span_step cfg ss n (spans, start, sz) = (spans', start', sz')"
    by (cases "span_step cfg ss n (spans, start, sz)") auto
  from refine_step [OF n st, of cfg spans sz] g
  have step: "chunk_step cfg (ss ! n)
           (filter (keep cfg) (map (\<lambda>p. join (asc '' '') (segment ss p)) spans), segment ss (start, n), sz)
       = (filter (keep cfg) (map (\<lambda>p. join (asc '' '') (segment ss p)) spans'), segment ss (start', Suc n), sz')"
    and st': "start' \<le> Suc n" by simp_all
  have "fold (span_step cfg ss) [0..<Suc n] ([], 0, 0) = (spans', start', sz')"
    by (simp add: f g)
  moreover have "fold (chunk_step cfg) (take (Suc n) ss) ([], [], 0)
      = (filter (keep cfg) (map (\<lambda>p. join (asc '' '') (segment ss p)) spans'), segment ss (start', Suc n), sz')"
    by (simp add: take_Suc_conv_app_nth [OF n] ih step)
  ultimately show ?case using st' by simp
qed

lemma create_chunks_spans:
  "create_chunks cfg ss
   = filter (keep cfg) (map (\<lambda>p. join (asc '' '') (segment ss p)) (buffer_spans cfg ss))"
proof -
  obtain spans start sz where f: "fold (span_step cfg ss) [0..<length ss] ([], 0, 0) = (spans, start, sz)"
    by (cases "fold (span_step cfg ss) [0..<length ss] ([], 0, 0)") auto
  from refine_fold [of "length ss" ss cfg] f
  have c: "fold (chunk_step cfg) ss ([], [], 0)
        = (filter (keep cfg) (map (\<lambda>p. join (asc '' '') (segment ss p)) spans), segment ss (start, length ss), sz)"
    and st: "start \<le> length ss" by simp_all
  have ne: "segment ss (start, length ss) \<noteq> [] \<longleftrightarrow> start < length ss"
    by (simp add: segment_empty_iff not_le)
  show ?thesis
    by (simp add: create_chunks_def c buffer_spans_def f ne Let_def keep_def)
qed

lemma successively_snoc:
  "successively P (xs @ [y]) \<longleftrightarrow> successively P xs \<and> (xs \<noteq> [] \<longrightarrow> P (last xs) y)"
  by (cases "xs = []") (auto simp: successively_append_iff)

lemma span_step_chain:
  assumes n: "n < length ss" and st: "start \<le> n"
    and ch: "successively (follows cfg ss) (spans @ [(start, n)])"
    and sp: "span_step cfg ss n (spans, start, sz) = (spans', start', sz')"
  shows "start' \<le> Suc n \<and> start' < Suc n \<and> successively (follows cfg ss) (spans' @ [(start', Suc n)])"
proof (cases "sz + int (length (ss ! n)) > chunk_size cfg \<and> start < n")
  case False
  have B: "span_step cfg ss n (spans, start, sz) = (spans, start, sz + int (length (ss ! n)))"
    by (simp only: span_step_def prod.case Let_def if_not_P [OF False])
  with sp have eq: "spans' = spans" "start' = start" by simp_all
  from ch have a: "successively (follows cfg ss) spans"
    and b: "spans \<noteq> [] \<longrightarrow> follows cfg ss (last spans) (start, n)"
    by (simp_all add: successively_snoc)
  from b have "spans \<noteq> [] \<longrightarrow> follows cfg ss (last spans) (start, Suc n)"
    by (auto simp: follows_def)
  with a have "successively (follows cfg ss) (spans @ [(start, Suc n)])"
    by (simp add: successively_snoc)
  with st show ?thesis by (simp add: eq)
next
  case True
  let ?c = "carried cfg (segment ss (start, n))"
  have B: "span_step cfg ss n (spans, start, sz)
      = (spans @ [(start, n)], n - length ?c, total_length ?c + int (length (ss ! n)))"
    by (simp only: span_step_def prod.case Let_def if_P [OF True])
  with sp have eq: "spans' = spans @ [(start, n)]" "start' = n - length ?c" by simp_all
  have nle: "n \<le> length ss" using n by simp
  have cs: "?c = segment ss (n - length ?c, n)" by (rule carried_segment(1) [OF st nle])
  have lo: "start \<le> n - length ?c" by (rule carried_segment(2) [OF st nle])
  have "follows cfg ss (start, n) (n - length ?c, Suc n)"
    unfolding follows_def using lo cs by simp
  with ch have "successively (follows cfg ss) ((spans @ [(start, n)]) @ [(n - length ?c, Suc n)])"
    by (simp only: successively_snoc [of _ "spans @ [(start, n)]"] last_snoc simp_thms)
  then have "successively (follows cfg ss) (spans' @ [(start', Suc n)])" by (simp only: eq)
  moreover have "start' < Suc n" unfolding eq by arith
  ultimately show ?thesis by simp
qed

lemma span_fold_chain:
  "n \<le> length ss \<Longrightarrow>
   (case fold (span_step cfg ss) [0..<n] ([], 0, 0) of (spans, start, sz) \<Rightarrow>
      start \<le> n \<and> (0 < n \<longrightarrow> start < n) \<and> successively (follows cfg ss) (spans @ [(start, n)]))"
proof (induction n)
  case 0
  show ?case by simp
next
  case (Suc n)
  then have n: "n < length ss" by simp
  obtain spans start sz where f: "fold (span_step cfg ss) [0..<n] ([], 0, 0) = (spans, start, sz)"
    by (cases "fold (span_step cfg ss) [0..<n] ([], 0, 0)") auto
  from Suc.IH n f have st: "start \<le> n"
    and ch: "successively (follows cfg ss) (spans @ [(start, n)])" by simp_all
  obtain spans' start' sz' where g: "span_step cfg ss n (spans, start, sz) = (spans', start', sz')"
    by (cases "span_step cfg ss n (spans, start, sz)") auto
  have "fold (span_step cfg ss) [0..<Suc n] ([], 0, 0) = (spans', start', sz')"
    by (simp add: f g)
  with span_step_chain [OF n st ch g] show ?case by simp
qed

lemma buffer_spans_chain: "successively (follows cfg ss) (buffer_spans cfg ss)"
proof -
  obtain spans start sz where f: "fold (span_step cfg ss) [0..<length ss] ([], 0, 0) = (spans, start, sz)"
    by (cases "fold (span_step cfg ss) [0..<length ss] ([], 0, 0)") auto
  from span_fold_chain [of "length ss" ss cfg] f
  have ch: "successively (follows cfg ss) (spans @ [(start, length ss)])" by simp
  then have "successively (follows cfg ss) spans" by (simp add: successively_snoc)
  with ch show ?thesis by (simp add: buffer_spans_def f)
qed

lemma follows_overlap_within:
  "0 \<le> chunk_overlap cfg \<Longrightarrow> follows cfg ss p q \<Longrightarrow> overlap_within cfg ss p q"
  by (simp add: follows_def overlap_within_def carried_bound)

lemma overlap_within_trans:
  assumes "overlap_within cfg ss p q" "overlap_within cfg ss q r"
  shows "overlap_within cfg ss p r"
proof -
  from assms have le: "fst q \<le> fst r" and b: "total_length (segment ss (fst q, snd p)) \<le> chunk_overlap cfg"
    by (simp_all add: overlap_within_def)
  have "segment ss (fst r, snd p) = drop (fst r - fst q) (segment ss (fst q, snd p))"
    using le by (rule segment_drop)
  then have "total_length (segment ss (fst r, snd p)) \<le> total_length (segment ss (fst q, snd p))"
    by (simp only: total_length_drop_le)
  with b assms show ?thesis by (auto simp: overlap_within_def)
qed

lemma buffer_spans_pairwise:
  assumes ov: "0 \<le> chunk_overlap cfg"
    and ij: "i < j" "j < length (buffer_spans cfg ss)"
  shows "overlap_within cfg ss (buffer_spans cfg ss ! i) (buffer_spans cfg ss ! j)"
proof -
  have "successively (overlap_within cfg ss) (buffer_spans cfg ss)"
    using buffer_spans_chain follows_overlap_within [OF ov]
    by (rule successively_mono)
  moreover have "transp (overlap_within cfg ss)"
    using overlap_within_trans by (auto intro: transpI)
  ultimately have "sorted_wrt (overlap_within cfg ss) (buffer_spans cfg ss)"
    by (simp add: successively_conv_sorted_wrt)
  with ij show ?thesis by (simp add: sorted_wrt_iff_nth_less)
qed

lemmas span_eval = buffer_spans_def span_step_def carried_def segment_def total_length_def
  Let_def asc_def example_sentences_list_def example_chunker_def

lemma example_spans: "buffer_spans example_chunker example_sentences_list = [(0, 2), (1, 3)]"
  by (simp add: span_eval numeral_3_eq_3 numeral_2_eq_2)

lemma negative_spans:
  "buffer_spans \<lparr>chunk_size = 40, chunk_overlap = - 1, min_chunk_size = 0\<rparr> example_sentences_list
     = [(0, 2), (2, 3)]"
  by (simp add: span_eval numeral_3_eq_3 numeral_2_eq_2)

text \<open>
  C5 (as amended). For every configuration with \<open>chunk_overlap \<ge> 0\<close>: the sentences carried
  from a closed buffer into the next one are whole sentences forming a suffix of the closed
  buffer, of combined length at most \<open>chunk_overlap\<close>, taken from the end backward until the
  next sentence would exceed the budget (or the buffer is exhausted). The chunks returned are
  the joined buffers that pass the minimum-size test; each buffer starts with exactly what was
  carried out of its predecessor; and any two buffers of a run, hence any two adjacent output
  chunks, share sentences of combined length at most \<open>chunk_overlap\<close>.
\<close>

theorem overlap_whole_sentences:
  assumes ov: "0 \<le> chunk_overlap cfg"
  shows "suffix (carried cfg buf) buf
     \<and> total_length (carried cfg buf) \<le> chunk_overlap cfg
     \<and> (carried cfg buf = buf
          \<or> (\<exists>front s. buf = front @ s # carried cfg buf
                \<and> chunk_overlap cfg < total_length (carried cfg buf) + int (length s)))
     \<and> create_chunks cfg ss
          = filter (keep cfg) (map (\<lambda>p. join (asc '' '') (segment ss p)) (buffer_spans cfg ss))
     \<and> successively (follows cfg ss) (buffer_spans cfg ss)
     \<and> (\<forall>i j. i < j \<and> j < length (buffer_spans cfg ss) \<longrightarrow>
            overlap_within cfg ss (buffer_spans cfg ss ! i) (buffer_spans cfg ss ! j))"
proof (intro conjI allI impI)
  show "suffix (carried cfg buf) buf" by (rule carried_suffix)
  show "total_length (carried cfg buf) \<le> chunk_overlap cfg" using ov by (rule carried_bound)
  show "carried cfg buf = buf
          \<or> (\<exists>front s. buf = front @ s # carried cfg buf
                \<and> chunk_overlap cfg < total_length (carried cfg buf) + int (length s))"
    using carried_maximal [of cfg buf] by blast
  show "create_chunks cfg ss
          = filter (keep cfg) (map (\<lambda>p. join (asc '' '') (segment ss p)) (buffer_spans cfg ss))"
    by (rule create_chunks_spans)
  show "successively (follows cfg ss) (buffer_spans cfg ss)" by (rule buffer_spans_chain)
next
  fix i j assume "i < j \<and> j < length (buffer_spans cfg ss)"
  then show "overlap_within cfg ss (buffer_spans cfg ss ! i) (buffer_spans cfg ss ! j)"
    using buffer_spans_pairwise [OF ov] by blast
qed

theorem overlap_whole_sentences_witness:
  "0 \<le> chunk_overlap example_chunker
   \<and> buffer_spans example_chunker example_sentences_list = [(0, 2), (1, 3)]
   \<and> (0::nat) < 1 \<and> 1 < length (buffer_spans example_chunker example_sentences_list)
   \<and> overlap_within example_chunker example_sentences_list
        (buffer_spans example_chunker example_sentences_list ! 0)
        (buffer_spans example_chunker example_sentences_list ! 1)
   \<and> create_chunks example_chunker example_sentences_list
        = [asc ''Reishi is a fungus. It grows on wood.'', asc ''It grows on wood. People brew it as tea.'']"
proof -
  have ov: "0 \<le> chunk_overlap example_chunker" by (simp add: example_chunker_def)
  have i: "(0::nat) < 1" by simp
  have j: "1 < length (buffer_spans example_chunker example_sentences_list)"
    by (simp add: example_spans)
  from overlap_whole_sentences [OF ov, of "[]" example_sentences_list] i j
  have w: "overlap_within example_chunker example_sentences_list
        (buffer_spans example_chunker example_sentences_list ! 0)
        (buffer_spans example_chunker example_sentences_list ! 1)"
    by blast
  have c: "create_chunks example_chunker example_sentences_list
        = [asc ''Reishi is a fungus. It grows on wood.'', asc ''It grows on wood. People brew it as tea.'']"
    by (simp add: chunk_eval example_sentences_list_def example_chunker_def)
  from ov example_spans i j w c show ?thesis by (intro conjI)
qed

text \<open>
  C5 as stated, for every configuration, fails for a negative \<open>chunk_overlap\<close>: nothing is
  carried, the two adjacent chunks share no sentence, and the combined length 0 of nothing
  is not at most \<open>-1\<close>.
\<close>

theorem overlap_whole_sentences_counterexample:
  "create_chunks \<lparr>chunk_size = 40, chunk_overlap = - 1, min_chunk_size = 0\<rparr> example_sentences_list
     = [asc ''Reishi is a fungus. It grows on wood.'', asc ''People brew it as tea.'']
   \<and> buffer_spans \<lparr>chunk_size = 40, chunk_overlap = - 1, min_chunk_size = 0\<rparr> example_sentences_list
     = [(0, 2), (2, 3)]
   \<and> carried \<lparr>chunk_size = 40, chunk_overlap = - 1, min_chunk_size = 0\<rparr>
        [asc ''Reishi is a fungus.'', asc ''It grows on wood.''] = []
   \<and> \<not> total_length [] \<le> chunk_overlap \<lparr>chunk_size = 40, chunk_overlap = - 1, min_chunk_size = 0\<rparr>"
proof -
  have a: "create_chunks \<lparr>chunk_size = 40, chunk_overlap = - 1, min_chunk_size = 0\<rparr> example_sentences_list
     = [asc ''Reishi is a fungus. It grows on wood.'', asc ''People brew it as tea.'']"
    by (simp add: chunk_eval example_sentences_list_def)
  have c: "carried \<lparr>chunk_size = 40, chunk_overlap = - 1, min_chunk_size = 0\<rparr>
        [asc ''Reishi is a fungus.'', asc ''It grows on wood.''] = []"
    by (simp add: carried_def asc_def)
  have d: "\<not> total_length [] \<le> chunk_overlap \<lparr>chunk_size = 40, chunk_overlap = - 1, min_chunk_size = 0\<rparr>"
    by simp
  from a negative_spans c d show ?thesis by (intro conjI)
qed


section \<open>Properties of structure extraction\<close>

subsection \<open>What the heading patterns accept\<close>

text \<open>
  The matcher run on the two heading patterns accepts exactly the texts described by
  \<open>starts_with_ci\<close> on the seven words and by \<open>numbered_heading\<close>.
\<close>

lemma rests_word:
  "rests ic (word kw) s =
     (if length kw \<le> length s \<and> list_all2 (lit_matches ic) kw (take (length kw) s)
      then [drop (length kw) s] else [])"
proof (induction kw arbitrary: s rule: word.induct)
  case 1
  show ?case by simp
next
  case (2 c)
  show ?case by (cases s) auto
next
  case (3 c d cs)
  show ?case
  proof (cases s)
    case Nil
    then show ?thesis by simp
  next
    case (Cons x xs)
    show ?thesis unfolding Cons using "3.IH" [of xs] by auto
  qed
qed

lemma re_match_word: "re_match True (word kw) s \<longleftrightarrow> starts_with_ci kw s"
  by (simp add: re_match_def rests_word starts_with_ci_def)

lemma re_match_Seq: "re_match ic (Seq r q) s \<longleftrightarrow> (\<exists>x\<in>set (rests ic r s). re_match ic q x)"
  by (auto simp: re_match_def)

lemma re_match_Seq_Opt: "re_match ic (Seq r (Opt q)) s \<longleftrightarrow> re_match ic r s"
  by (auto simp: re_match_def)

lemma re_match_Alt: "re_match ic (Alt r q) s \<longleftrightarrow> re_match ic r s \<or> re_match ic q s"
  by (simp add: re_match_def)

lemma re_match_alternatives:
  "rs \<noteq> [] \<Longrightarrow> re_match ic (alternatives rs) s \<longleftrightarrow> list_ex (\<lambda>r. re_match ic r s) rs"
  by (induction rs rule: alternatives.induct) (simp_all add: re_match_Alt)

lemma plus_rests_set:
  "set (plus_rests ic a s) = {r. \<exists>xs. xs \<noteq> [] \<and> list_all (atom_matches ic a) xs \<and> s = xs @ r}"
proof (induction s)
  case Nil
  show ?case by simp
next
  case (Cons c cs)
  show ?case
  proof (cases "atom_matches ic a c")
    case False
    have "\<And>xs r. xs \<noteq> [] \<Longrightarrow> list_all (atom_matches ic a) xs \<Longrightarrow> c # cs = xs @ r \<Longrightarrow> False"
    proof -
      fix xs r assume "xs \<noteq> []" "list_all (atom_matches ic a) xs" "c # cs = xs @ r"
      then show False using False by (cases xs) auto
    qed
    then show ?thesis using False by auto
  next
    case True
    show ?thesis
    proof (rule set_eqI, rule iffI)
      fix r assume "r \<in> set (plus_rests ic a (c # cs))"
      then have "r = cs \<or> r \<in> set (plus_rests ic a cs)" using True by auto
      then show "r \<in> {r. \<exists>xs. xs \<noteq> [] \<and> list_all (atom_matches ic a) xs \<and> c # cs = xs @ r}"
      proof
        assume "r = cs"
        then have "[c] \<noteq> [] \<and> list_all (atom_matches ic a) [c] \<and> c # cs = [c] @ r"
          using True by simp
        then show ?thesis by blast
      next
        assume "r \<in> set (plus_rests ic a cs)"
        then obtain xs where "xs \<noteq> []" "list_all (atom_matches ic a) xs" "cs = xs @ r"
          unfolding Cons.IH by blast
        then have "c # xs \<noteq> [] \<and> list_all (atom_matches ic a) (c # xs) \<and> c # cs = (c # xs) @ r"
          using True by simp
        then show ?thesis by blast
      qed
    next
      fix r assume "r \<in> {r. \<exists>xs. xs \<noteq> [] \<and> list_all (atom_matches ic a) xs \<and> c # cs = xs @ r}"
      then obtain xs where xs: "xs \<noteq> []" "list_all (atom_matches ic a) xs" "c # cs = xs @ r"
        by blast
      then obtain ys where ys: "xs = c # ys" by (cases xs) auto
      show "r \<in> set (plus_rests ic a (c # cs))"
      proof (cases "ys = []")
        case True
        with xs ys have "r = cs" by simp
        then show ?thesis using \<open>atom_matches ic a c\<close> by simp
      next
        case False
        with xs ys have "ys \<noteq> [] \<and> list_all (atom_matches ic a) ys \<and> cs = ys @ r" by simp
        then have "r \<in> set (plus_rests ic a cs)" unfolding Cons.IH by blast
        then show ?thesis using \<open>atom_matches ic a c\<close> by simp
      qed
    qed
  qed
qed

lemma list_all_Digit: "list_all (atom_matches ic Digit) xs = list_all is_decimal xs"
  by (induction xs) simp_all

lemma list_all_Space: "list_all (atom_matches ic Space) xs = list_all isspace xs"
  by (induction xs) simp_all

lemma rests_opt_dot_set:
  "set (rests True (Opt (Atom (Lit 46))) s) = {r. \<exists>dot. (dot = [] \<or> dot = [46]) \<and> s = dot @ r}"
  by (cases s) (auto simp: lit_matches_def)

lemma re_match_AZ:
  "re_match True (Atom AZ) s \<longleftrightarrow> (\<exists>c rest. s = c # rest \<and> atom_matches True AZ c)"
  by (cases s) (auto simp: re_match_def)

lemma re_match_numbered:
  "re_match True (Seq (Plus Digit) (Seq (Opt (Atom (Lit 46))) (Seq (Plus Space) (Atom AZ)))) t
   \<longleftrightarrow> numbered_heading t"
proof
  assume "re_match True (Seq (Plus Digit) (Seq (Opt (Atom (Lit 46))) (Seq (Plus Space) (Atom AZ)))) t"
  then obtain r1 r2 r3 where r1: "r1 \<in> set (plus_rests True Digit t)"
    and r2: "r2 \<in> set (rests True (Opt (Atom (Lit 46))) r1)"
    and r3: "r3 \<in> set (plus_rests True Space r2)"
    and az: "re_match True (Atom AZ) r3"
    unfolding re_match_Seq rests.simps(7) by blast
  from r1 obtain ds where ds: "ds \<noteq> []" "list_all is_decimal ds" "t = ds @ r1"
    unfolding plus_rests_set list_all_Digit by blast
  from r2 obtain dot where dot: "dot = [] \<or> dot = [46]" "r1 = dot @ r2"
    unfolding rests_opt_dot_set by blast
  from r3 obtain ws where ws: "ws \<noteq> []" "list_all isspace ws" "r2 = ws @ r3"
    unfolding plus_rests_set list_all_Space by blast
  from az obtain c rest where c: "r3 = c # rest" "atom_matches True AZ c"
    unfolding re_match_AZ by blast
  have "t = ds @ dot @ ws @ c # rest" using ds dot ws c by simp
  with ds dot ws c show "numbered_heading t" unfolding numbered_heading_def by blast
next
  assume "numbered_heading t"
  then obtain ds dot ws c rest where t: "t = ds @ dot @ ws @ c # rest"
    and ds: "ds \<noteq> []" "list_all is_decimal ds" and dot: "dot = [] \<or> dot = [46]"
    and ws: "ws \<noteq> []" "list_all isspace ws" and c: "atom_matches True AZ c"
    unfolding numbered_heading_def by blast
  have r1: "dot @ ws @ c # rest \<in> set (plus_rests True Digit t)"
    unfolding plus_rests_set list_all_Digit using ds t by blast
  have r2: "ws @ c # rest \<in> set (rests True (Opt (Atom (Lit 46))) (dot @ ws @ c # rest))"
    unfolding rests_opt_dot_set using dot by blast
  have r3: "c # rest \<in> set (plus_rests True Space (ws @ c # rest))"
    unfolding plus_rests_set list_all_Space using ws by blast
  have az: "re_match True (Atom AZ) (c # rest)" unfolding re_match_AZ using c by blast
  show "re_match True (Seq (Plus Digit) (Seq (Opt (Atom (Lit 46))) (Seq (Plus Space) (Atom AZ)))) t"
    unfolding re_match_Seq rests.simps(7) using r1 r2 r3 az by blast
qed

lemma heading_patterns_meaning:
  "list_ex (\<lambda>pattern. re_match True pattern t) heading_patterns
   \<longleftrightarrow> list_ex (\<lambda>kw. starts_with_ci kw t) heading_keywords \<or> numbered_heading t"
  by (simp add: heading_patterns_def heading_keywords_def re_match_Alt re_match_Seq_Opt
      re_match_word re_match_numbered del: rests.simps word.simps)

lemma spec_is_heading_patterns:
  "spec_is_heading isupper t font_size bold \<longleftrightarrow>
     (bold \<and> font_size > 12) \<or> (font_size > 12 \<and> length t < 100)
     \<or> (isupper t \<and> length t > 3)
     \<or> list_ex (\<lambda>pattern. re_match True pattern t) heading_patterns"
  unfolding spec_is_heading_def heading_patterns_meaning by blast


subsection \<open>Runs on the example document\<close>

lemmas parse_eval = is_heading_def line_text_def plain_line_def rests.simps re_match_def
  heading_patterns_def references_pattern_def asc_def lit_matches_def is_decimal_def
  decimal_ranges_def isspace_def strip_def ascii_isupper_def Let_def

lemma heading_facts:
  "is_heading ascii_isupper (plain_line [''Abstract''])"
  "is_heading ascii_isupper (plain_line [''Introduction''])"
  "is_heading ascii_isupper (plain_line [''Methods''])"
  "is_heading ascii_isupper (plain_line [''References''])"
  "is_heading ascii_isupper (plain_line [''2. Jones K. Spores. 2021.''])"
  "\<not> is_heading ascii_isupper (plain_line [''Reishi is a fungus.''])"
  "\<not> is_heading ascii_isupper (plain_line [''It grows on wood.''])"
  "\<not> is_heading ascii_isupper (plain_line [''People brew it as tea.''])"
  "\<not> is_heading ascii_isupper (plain_line [''Smith J. Fungi. 2020.''])"
  by (simp_all add: parse_eval)

lemma reference_facts:
  "\<not> re_search True references_pattern (asc ''Abstract'')"
  "\<not> re_search True references_pattern (asc ''Introduction'')"
  "\<not> re_search True references_pattern (asc ''Methods'')"
  "re_search True references_pattern (asc ''References'')"
  "\<not> re_search True references_pattern (asc ''2. Jones K. Spores. 2021.'')"
  by (simp_all add: parse_eval)

lemma line_text_plain: "line_text (plain_line [t]) = strip (asc t)"
  by (simp add: line_text_def plain_line_def)

lemma strip_facts:
  "strip (asc ''Abstract'') = asc ''Abstract''"
  "strip (asc ''Introduction'') = asc ''Introduction''"
  "strip (asc ''Methods'') = asc ''Methods''"
  "strip (asc ''References'') = asc ''References''"
  "strip (asc ''2. Jones K. Spores. 2021.'') = asc ''2. Jones K. Spores. 2021.''"
  "strip (asc ''Reishi is a fungus.'') = asc ''Reishi is a fungus.''"
  "strip (asc ''It grows on wood.'') = asc ''It grows on wood.''"
  "strip (asc ''People brew it as tea.'') = asc ''People brew it as tea.''"
  "strip (asc ''Smith J. Fungi. 2020.'') = asc ''Smith J. Fungi. 2020.''"
  by (simp_all add: strip_def asc_def isspace_def)

lemma nonempty_facts:
  "asc ''Abstract'' \<noteq> []" "asc ''Introduction'' \<noteq> []" "asc ''Methods'' \<noteq> []"
  "asc ''References'' \<noteq> []" "asc ''2. Jones K. Spores. 2021.'' \<noteq> []"
  "asc ''Reishi is a fungus.'' \<noteq> []" "asc ''It grows on wood.'' \<noteq> []"
  "asc ''People brew it as tea.'' \<noteq> []" "asc ''Smith J. Fungi. 2020.'' \<noteq> []"
  by (simp_all add: asc_def)

lemma scan_lines_break:
  assumes "line_text r \<noteq> []" "is_heading isupper r" "re_search True references_pattern (line_text r)"
  shows "scan_lines isupper page_num (pre @ r # post) st = scan_lines isupper page_num (pre @ [r]) st"
  using assms
proof (induction pre arbitrary: st)
  case Nil
  then show ?case by (cases st) (simp add: Let_def)
next
  case (Cons x pre)
  then show ?case by (cases st) (simp add: Let_def split: option.splits)
qed


subsection \<open>The claims\<close>

text \<open>
  C8 (as amended). A line without spans is no heading. Otherwise the classifier looks at the
  first span only: with \<open>text\<close> the stripped text of the first span, and font size and bold
  flag those of the first span, the line is a heading if and only if (bold and font size
  above 12) or (font size above 12 and \<open>text\<close> shorter than 100) or (\<open>text\<close> all-uppercase
  and longer than 3) or \<open>text\<close> starts, case ignored, with one of the seven heading words
  or is a numbered heading. So the classification is a function of the first span's text,
  font size and bold flag.
\<close>

theorem is_heading_first_span:
  "is_heading isupper line =
     (case line_spans line of
        [] \<Rightarrow> False
      | first_span # others \<Rightarrow>
          spec_is_heading isupper (strip (span_text first_span)) (span_size first_span)
            (span_flags first_span AND 16 \<noteq> 0))"
  by (simp add: is_heading_def spec_is_heading_patterns Let_def split: list.splits)

text \<open>
  C8 as stated, over the line's text, fails: the line made of the spans \<open>1. \<close> and
  \<open>Introduction\<close> has the text \<open>1. Introduction\<close>, which matches the numbered-heading
  pattern, and is not classified as a heading, while the one-span line of the same text,
  font size and flags is.
\<close>

theorem is_heading_counterexample:
  "\<not> is_heading ascii_isupper (plain_line [''1. '', ''Introduction''])
   \<and> line_text (plain_line [''1. '', ''Introduction'']) = asc ''1. Introduction''
   \<and> spec_is_heading ascii_isupper (line_text (plain_line [''1. '', ''Introduction''])) 10 False
   \<and> is_heading ascii_isupper (plain_line [''1. Introduction''])
   \<and> line_text (plain_line [''1. Introduction'']) = asc ''1. Introduction''"
  by (simp add: parse_eval spec_is_heading_patterns)

text \<open>
  C1. On the example document extraction does not end at the references heading: \<open>break\<close>
  leaves only the loop over the lines of the block. The first bibliography line on page 2
  is appended to the section \<open>Methods\<close>, and the numbered entry after it opens a fourth
  section, where the claim promises exactly three sections without references content.
\<close>

theorem extract_structure_scans_past_references:
  "extract_structure ascii_isupper example_document =
    [\<lparr>sec_title = asc ''Abstract'', sec_page = 1, sec_content = [asc ''Reishi is a fungus.'']\<rparr>,
     \<lparr>sec_title = asc ''Introduction'', sec_page = 1, sec_content = [asc ''It grows on wood.'']\<rparr>,
     \<lparr>sec_title = asc ''Methods'', sec_page = 1,
       sec_content = [asc ''People brew it as tea.'', asc ''Smith J. Fungi. 2020.'']\<rparr>,
     \<lparr>sec_title = asc ''2. Jones K. Spores. 2021.'', sec_page = 2, sec_content = []\<rparr>]"
  by (simp add: extract_structure_def example_document_def scan_block_def Let_def
      heading_facts reference_facts line_text_plain strip_facts nonempty_facts)

end
